theory Spec2Isabelle
  imports Main "HOL-Library.Word"
begin

unbundle bit_operations_syntax

section \<open>Station identifiers and flow shares (station\_cmd.cpp, FlowStat)\<close>

text \<open>
  \<^verbatim>\<open>StationID\<close> is a 16 bit identifier, share boundaries are \<^verbatim>\<open>uint32_t\<close> and
  \<^verbatim>\<open>uint\<close>; the \<^verbatim>\<open>int flow\<close> argument of \<^verbatim>\<open>ChangeShare\<close> is a 32 bit word read
  as two's complement (\<open>sint\<close>), so that the mixed signed/unsigned arithmetic of the
  source is plain word arithmetic.
\<close>

type_synonym StationID = "16 word"
type_synonym u32 = "32 word"
type_synonym u8 = "8 word"

text \<open>
  Modelled from the spec: \<^verbatim>\<open>StationID::Invalid()\<close> (station\_type.h is not among the
  sources) is the "invalid" station identifier; it is taken as the greatest 16 bit
  value, and nothing proved below depends on which value it is.
\<close>

definition StationID_Invalid :: StationID where
  "StationID_Invalid = 0xFFFF"

definition INT_MIN :: u32 where
  "INT_MIN = 0x80000000"

text \<open>
  \<^verbatim>\<open>FlowStat::SharesMap\<close> is a \<^verbatim>\<open>std::map<uint32_t, StationID>\<close>: the list of its
  entries in iteration order, that is by ascending key. \<open>map_assign\<close> is
  \<^verbatim>\<open>m[k] = v\<close>; \<open>upper_bound\<close> is the position of the first entry whose key is greater
  than the argument (\<open>length m\<close> is \<^verbatim>\<open>end()\<close>).
\<close>

type_synonym SharesMap = "(u32 \<times> StationID) list"

fun map_assign :: "u32 \<Rightarrow> StationID \<Rightarrow> SharesMap \<Rightarrow> SharesMap" where
  "map_assign k v [] = [(k, v)]"
| "map_assign k v ((k', v') # m) =
     (if k < k' then (k, v) # (k', v') # m
      else if k = k' then (k, v) # m
      else (k', v') # map_assign k v m)"

definition upper_bound :: "u32 \<Rightarrow> SharesMap \<Rightarrow> nat" where
  "upper_bound k m = length (takeWhile (\<lambda>e. fst e \<le> k) m)"

record FlowStat =
  shares :: SharesMap
  unrestricted :: u32

subsection \<open>GetShare\<close>

fun GetShare_loop :: "StationID \<Rightarrow> u32 \<Rightarrow> SharesMap \<Rightarrow> u32" where
  "GetShare_loop st prev [] = 0"
| "GetShare_loop st prev ((k, v) # m) =
     (if v = st then k - prev else GetShare_loop st k m)"

definition GetShare :: "FlowStat \<Rightarrow> StationID \<Rightarrow> u32" where
  "GetShare fs st = GetShare_loop st 0 (shares fs)"

subsection \<open>ReleaseShare\<close>

text \<open>
  The first loop of \<^verbatim>\<open>ReleaseShare\<close> walks the map backwards. Its state is
  \<open>(flow, next_share, found, unrestricted)\<close>; \<open>Inr u\<close> is a \<^verbatim>\<open>return\<close> from inside
  the loop with \<open>u\<close> the value of \<^verbatim>\<open>this->unrestricted\<close> at that point, \<open>Inl\<close> is the
  state after the loop has ended or was left by \<^verbatim>\<open>break\<close>.
\<close>

fun ReleaseShare_scan ::
  "StationID \<Rightarrow> SharesMap \<Rightarrow> u32 \<times> u32 \<times> bool \<times> u32 \<Rightarrow> (u32 \<times> u32 \<times> bool \<times> u32) + u32" where
  "ReleaseShare_scan st [] s = Inl s"
| "ReleaseShare_scan st ((k, v) # rm) (flow, next_share, found, u) =
     (if k < u then Inr u
      else if found then Inl (next_share - k, next_share, found, u + (next_share - k))
      else if k = u then Inr u
      else ReleaseShare_scan st rm (flow, k, (v = st), u))"

text \<open>The second loop: state \<open>(flow, new_shares)\<close>.\<close>

fun ReleaseShare_build :: "StationID \<Rightarrow> SharesMap \<Rightarrow> u32 \<times> SharesMap \<Rightarrow> u32 \<times> SharesMap" where
  "ReleaseShare_build st [] s = s"
| "ReleaseShare_build st ((k, v) # m) (flow, new_shares) =
     (if v \<noteq> st then ReleaseShare_build st m (flow, map_assign (flow + k) v new_shares)
      else ReleaseShare_build st m (0, new_shares))"

text \<open>
  \<open>None\<close> is a failed \<^verbatim>\<open>assert(!this->shares.empty())\<close>. The final assertion cannot
  fail: \<open>new_shares\<close> holds at least the entry for \<open>st\<close>.
\<close>

definition ReleaseShare :: "StationID \<Rightarrow> FlowStat \<Rightarrow> FlowStat option" where
  "ReleaseShare st fs =
     (if shares fs = [] then None
      else case ReleaseShare_scan st (rev (shares fs)) (0, 0, False, unrestricted fs) of
        Inr u \<Rightarrow> Some (fs\<lparr>unrestricted := u\<rparr>)
      | Inl (flow, next_share, found, u) \<Rightarrow>
          if flow = 0 then Some (fs\<lparr>unrestricted := u\<rparr>)
          else Some \<lparr>shares = snd (ReleaseShare_build st (shares fs) (flow, map_assign flow st [])),
                     unrestricted = u\<rparr>)"

subsection \<open>RestrictShare\<close>

text \<open>
  Loop state \<open>(flow, last_share, new_shares, unrestricted)\<close>; \<open>Inr u\<close> is the
  \<^verbatim>\<open>return\<close> inside the loop.
\<close>

fun RestrictShare_loop ::
  "StationID \<Rightarrow> SharesMap \<Rightarrow> u32 \<times> u32 \<times> SharesMap \<times> u32 \<Rightarrow> (u32 \<times> u32 \<times> SharesMap \<times> u32) + u32" where
  "RestrictShare_loop st [] s = Inl s"
| "RestrictShare_loop st ((k, v) # m) (flow, last_share, new_shares, u) =
     (if flow = 0 then
        (if k > u then Inr u
         else if v = st then RestrictShare_loop st m (k - last_share, k, new_shares, u - (k - last_share))
         else RestrictShare_loop st m (flow, k, map_assign k v new_shares, u))
      else RestrictShare_loop st m (flow, k, map_assign (k - flow) v new_shares, u))"

definition RestrictShare :: "StationID \<Rightarrow> FlowStat \<Rightarrow> FlowStat option" where
  "RestrictShare st fs =
     (if shares fs = [] then None
      else case RestrictShare_loop st (shares fs) (0, 0, [], unrestricted fs) of
        Inr u \<Rightarrow> Some (fs\<lparr>unrestricted := u\<rparr>)
      | Inl (flow, last_share, new_shares, u) \<Rightarrow>
          if flow = 0 then Some (fs\<lparr>unrestricted := u\<rparr>)
          else Some \<lparr>shares = map_assign (last_share + flow) st new_shares, unrestricted = u\<rparr>)"

subsection \<open>ChangeShare\<close>

record ChangeShare_state =
  cs_flow :: u32
  removed_shares :: u32
  added_shares :: u32
  last_share :: u32
  new_shares :: SharesMap
  cs_unrestricted :: u32

fun ChangeShare_loop :: "StationID \<Rightarrow> SharesMap \<Rightarrow> ChangeShare_state \<Rightarrow> ChangeShare_state" where
  "ChangeShare_loop st [] s = s"
| "ChangeShare_loop st ((k, v) # m) s =
     (if v = st \<and> sint (cs_flow s) < 0 \<and>
         (cs_flow s = INT_MIN \<or> k - last_share s \<le> - cs_flow s)
      then \<comment> \<open>remove the whole share\<close>
        (let share = k - last_share s in
         ChangeShare_loop st m
           (s\<lparr>removed_shares := removed_shares s + share,
              cs_unrestricted := (if k \<le> cs_unrestricted s then cs_unrestricted s - share
                                  else cs_unrestricted s),
              cs_flow := (if cs_flow s \<noteq> INT_MIN then cs_flow s + share else cs_flow s),
              last_share := k\<rparr>))
      else
        (let s1 = (if v = st then
                     (let s0 = (if sint (cs_flow s) < 0
                                then s\<lparr>removed_shares := removed_shares s + (- cs_flow s)\<rparr>
                                else s\<lparr>added_shares := added_shares s + cs_flow s\<rparr>)
                      in s0\<lparr>cs_unrestricted := (if k \<le> cs_unrestricted s0
                                                 then cs_unrestricted s0 + cs_flow s0
                                                 else cs_unrestricted s0),
                             cs_flow := 0\<rparr>)
                   else s)
         in ChangeShare_loop st m
              (s1\<lparr>new_shares := map_assign (k + added_shares s1 - removed_shares s1) v (new_shares s1),
                  last_share := k\<rparr>)))"

text \<open>
  After the loop \<^verbatim>\<open>ReleaseShare\<close> is called on the object while it still holds the old
  shares; only then are the new shares swapped in.
\<close>

definition ChangeShare :: "StationID \<Rightarrow> u32 \<Rightarrow> FlowStat \<Rightarrow> FlowStat option" where
  "ChangeShare st flow fs =
     (if shares fs = [] then None
      else
        let s = ChangeShare_loop st (shares fs)
                  \<lparr>cs_flow = flow, removed_shares = 0, added_shares = 0, last_share = 0,
                   new_shares = [], cs_unrestricted = unrestricted fs\<rparr>
        in if 0 < sint (cs_flow s) then
             (let ns = map_assign (last_share s + cs_flow s) st (new_shares s) in
              if cs_unrestricted s < last_share s then
                (case ReleaseShare st (fs\<lparr>unrestricted := cs_unrestricted s\<rparr>) of
                   None \<Rightarrow> None
                 | Some fs' \<Rightarrow> Some (fs'\<lparr>shares := ns\<rparr>))
              else Some \<lparr>shares = ns, unrestricted = cs_unrestricted s + cs_flow s\<rparr>)
           else Some \<lparr>shares = new_shares s, unrestricted = cs_unrestricted s\<rparr>)"

subsection \<open>GetVia\<close>

text \<open>
  \<^verbatim>\<open>RandomRange\<close> (core/random\_func.hpp) is not among the sources. The three calls
  that \<^verbatim>\<open>GetVia\<close> can make are the parameters \<open>rnd1\<close>, \<open>rnd2\<close> and \<open>rnd3\<close>: each maps
  the limit it is called with to the number drawn. An iterator is a position in the
  entry list; \<open>None\<close> is a failed assertion.
\<close>

definition share_begin :: "SharesMap \<Rightarrow> nat \<Rightarrow> u32" where
  \<comment> \<open>\<^verbatim>\<open>(it == this->shares.begin() ? 0 : (--it)->first)\<close>\<close>
  "share_begin m it = (if it = 0 then 0 else fst (m ! (it - 1)))"

definition GetVia_third ::
  "(u32 \<Rightarrow> u32) \<Rightarrow> FlowStat \<Rightarrow> u32 \<Rightarrow> u32 \<Rightarrow> u32 \<Rightarrow> u32 \<Rightarrow> u32 \<Rightarrow> StationID option" where
  "GetVia_third rnd3 fs new_max begin1 interval begin2 interval2 =
     (let m = shares fs;
          rand = rnd3 new_max;
          it3 = (if rand < begin1 then upper_bound rand m
                 else if rand < begin2 - interval then upper_bound (rand + interval) m
                 else upper_bound (rand + interval + interval2) m)
      in if it3 < length m \<and> fst (m ! it3) \<le> unrestricted fs then Some (snd (m ! it3))
         else None)"

definition GetVia_second ::
  "(u32 \<Rightarrow> u32) \<Rightarrow> (u32 \<Rightarrow> u32) \<Rightarrow> FlowStat \<Rightarrow> StationID \<Rightarrow> StationID \<Rightarrow> u32 \<Rightarrow> u32
     \<Rightarrow> StationID option" where
  "GetVia_second rnd2 rnd3 fs excluded excluded2 begin1 interval =
     (let m = shares fs;
          new_max = unrestricted fs - interval;
          rand = rnd2 new_max;
          it2 = (if rand < begin1 then upper_bound rand m else upper_bound (rand + interval) m)
      in if \<not> (it2 < length m \<and> fst (m ! it2) \<le> unrestricted fs) then None
         else if snd (m ! it2) \<noteq> excluded \<and> snd (m ! it2) \<noteq> excluded2 then Some (snd (m ! it2))
         else
           let end2 = fst (m ! it2);
               begin2 = share_begin m it2;
               interval2 = end2 - begin2
           in if interval2 \<ge> new_max then Some StationID_Invalid
              else if begin1 > begin2
                then GetVia_third rnd3 fs (new_max - interval2) begin2 interval2 begin1 interval
                else GetVia_third rnd3 fs (new_max - interval2) begin1 interval begin2 interval2)"

definition GetVia ::
  "(u32 \<Rightarrow> u32) \<Rightarrow> (u32 \<Rightarrow> u32) \<Rightarrow> (u32 \<Rightarrow> u32) \<Rightarrow> FlowStat \<Rightarrow> StationID \<Rightarrow> StationID
     \<Rightarrow> StationID option" where
  "GetVia rnd1 rnd2 rnd3 fs excluded excluded2 =
     (let m = shares fs in
      if unrestricted fs = 0 then Some StationID_Invalid
      else if m = [] then None
      else
        let it = upper_bound (rnd1 (unrestricted fs)) m
        in if \<not> (it < length m \<and> fst (m ! it) \<le> unrestricted fs) then None
           else if snd (m ! it) \<noteq> excluded \<and> snd (m ! it) \<noteq> excluded2 then Some (snd (m ! it))
           else
             let end1 = fst (m ! it);
                 begin1 = share_begin m it;
                 interval = end1 - begin1
             in if interval \<ge> unrestricted fs then Some StationID_Invalid
                else GetVia_second rnd2 rnd3 fs excluded excluded2 begin1 interval)"

subsection \<open>Share sizes and map validity\<close>

text \<open>
  The individual share sizes, each boundary minus its predecessor as in
  \<^verbatim>\<open>GetShare\<close>, and the ordering of the keys that every \<^verbatim>\<open>std::map\<close> has.
\<close>

fun share_sizes :: "u32 \<Rightarrow> SharesMap \<Rightarrow> u32 list" where
  "share_sizes prev [] = []"
| "share_sizes prev ((k, v) # m) = (k - prev) # share_sizes k m"

definition valid_map :: "SharesMap \<Rightarrow> bool" where
  "valid_map m = sorted_wrt (<) (map fst m)"

text \<open>
  The invariants of a \<^verbatim>\<open>FlowStat\<close> that holds at least one unrestricted share: the keys
  ascend, every share has a positive size, every destination has one share, and the
  unrestricted boundary is the boundary of one of the shares.
\<close>

definition FlowStat_ok :: "FlowStat \<Rightarrow> bool" where
  "FlowStat_ok fs \<longleftrightarrow>
     valid_map (shares fs) \<and> (\<forall>e \<in> set (shares fs). fst e \<noteq> 0) \<and>
     distinct (map snd (shares fs)) \<and> unrestricted fs \<in> fst ` set (shares fs)"

text \<open>
  What \<^verbatim>\<open>GetVia\<close> may return for the excluded stations \<open>A\<close> and \<open>B\<close>: the
  destination of an unrestricted share that is neither of them, or the invalid station
  when every unrestricted share belongs to \<open>A\<close> or \<open>B\<close>.
\<close>

definition GetVia_post :: "FlowStat \<Rightarrow> StationID \<Rightarrow> StationID \<Rightarrow> StationID \<Rightarrow> bool" where
  "GetVia_post fs A B s \<longleftrightarrow>
     (s \<noteq> A \<and> s \<noteq> B \<and> (\<exists>e \<in> set (shares fs). fst e \<le> unrestricted fs \<and> snd e = s)) \<or>
     (s = StationID_Invalid \<and>
      (\<forall>e \<in> set (shares fs). fst e \<le> unrestricted fs \<longrightarrow> snd e = A \<or> snd e = B))"

text \<open>
  The contract of \<^verbatim>\<open>RandomRange(limit)\<close>: the number drawn is below a positive limit.
  \<open>draw_zero\<close> is the generator whose every draw is 0.
\<close>

definition draws_in_range :: "(u32 \<Rightarrow> u32) \<Rightarrow> bool" where
  "draws_in_range rnd \<longleftrightarrow> (\<forall>n. n \<noteq> 0 \<longrightarrow> rnd n < n)"


definition draw_zero :: "u32 \<Rightarrow> u32" where
  "draw_zero limit = 0"


section \<open>Command results\<close>

text \<open>
  The string identifiers that the modelled functions name; any other identifier is
  \<open>STR_OTHER n\<close>.
\<close>

datatype StringID =
    INVALID_STRING_ID
  | STR_NULL
  | STR_UNDEFINED
  | STR_ERROR_ADJOINS_MORE_THAN_ONE_EXISTING
  | STR_ERROR_FLAT_LAND_REQUIRED
  | STR_ERROR_MUST_DEMOLISH_BRIDGE_FIRST
  | STR_ERROR_MUST_REMOVE_SIGNALS_FIRST
  | STR_ERROR_DRIVE_THROUGH_DIRECTION
  | STR_ERROR_DRIVE_THROUGH_CORNER
  | STR_ERROR_DRIVE_THROUGH_JUNCTION
  | STR_ERROR_DRIVE_THROUGH_ON_TOWN_ROAD
  | STR_ERROR_NO_SUITABLE_ROAD
  | STR_ERROR_THERE_IS_NO_ROAD
  | STR_ERROR_THERE_IS_NO_STATION
  | STR_SV_STNAME_WOODS
  | STR_SV_STNAME_FOREST
  | STR_SV_STNAME_OILFIELD
  | STR_SV_STNAME_MINES
  | STR_SV_STNAME_FALLBACK
  | STR_OTHER nat

text \<open>
  Modelled from the spec: \<^verbatim>\<open>CommandCost\<close> (command\_type.h is not among the sources).
  A command returns "either a success with an accumulated monetary cost or a failure
  carrying a localized error code", and "cost accumulates additively". \<open>AddCost_cc\<close> is
  \<^verbatim>\<open>AddCost(CommandCost &&)\<close>: the costs add up and a success turns into the failure
  that is added to it; a failure keeps its message, so that an accumulator holds, in the
  words of \<^verbatim>\<open>RemoveFromRailBaseStation\<close>, "one of the other error that got accumulated".
\<close>

record CommandCost =
  cost :: int
  message :: StringID
  success :: bool

definition CommandCost_ok :: CommandCost where
  \<comment> \<open>\<^verbatim>\<open>CommandCost()\<close> and \<^verbatim>\<open>CommandCost(EXPENSES_CONSTRUCTION)\<close>\<close>
  "CommandCost_ok = \<lparr>cost = 0, message = INVALID_STRING_ID, success = True\<rparr>"

definition CommandCost_error :: "StringID \<Rightarrow> CommandCost" where
  \<comment> \<open>\<^verbatim>\<open>CommandCost(StringID msg)\<close>\<close>
  "CommandCost_error msg = \<lparr>cost = 0, message = msg, success = False\<rparr>"

definition Failed :: "CommandCost \<Rightarrow> bool" where
  "Failed c = (\<not> success c)"

definition AddCost :: "CommandCost \<Rightarrow> int \<Rightarrow> CommandCost" where
  "AddCost c m = c\<lparr>cost := cost c + m\<rparr>"

definition AddCost_cc :: "CommandCost \<Rightarrow> CommandCost \<Rightarrow> CommandCost" where
  "AddCost_cc c ret =
     (let c1 = AddCost c (cost ret)
      in if success c1 \<and> \<not> success ret then c1\<lparr>message := message ret, success := False\<rparr>
         else c1)"

section \<open>Stations and their goods entries\<close>

datatype GoodsEntry_State = Acceptance | Rating | CurrentMonth | AcceptedBigtick

datatype StationFacility = Train | TruckStop | BusStop | Airport | Dock | Waypoint

type_synonym CargoType = nat
type_synonym CompanyID = nat
type_synonym TileIndex = nat
type_synonym IndustryType = nat
type_synonym TownID = nat

record GoodsEntry =
  status :: "GoodsEntry_State set"
  rating :: u8
  time_since_pickup :: u8
  last_speed :: u8
  last_age :: u8
  max_waiting_cargo :: u32
  link_graph :: nat
  node :: nat

text \<open>
  Modelled from the spec: \<^verbatim>\<open>GoodsEntry::HasRating\<close> (station\_base.h is not among the
  sources). A rating entry that is disabled "loses its HasRating flag", which is the
  state \<^verbatim>\<open>GoodsEntry::State::Rating\<close> that \<^verbatim>\<open>UpdateStationRating\<close> resets there.
\<close>

definition HasRating :: "GoodsEntry \<Rightarrow> bool" where
  "HasRating ge = (Rating \<in> status ge)"

record Station =
  index :: StationID
  owner :: CompanyID
  town :: TownID
  facilities :: "StationFacility set"
  rect_IsEmpty :: bool
  string_id :: StringID
  indtype :: IndustryType
  time_since_load :: u8
  time_since_unload :: u8
  goods :: "GoodsEntry list"

text \<open>A rail station of company 1 in town 0, without goods entries.\<close>

definition strip_station :: "StationID \<Rightarrow> Station" where
  "strip_station t =
     \<lparr>index = t, owner = 1, town = 0, facilities = {Train}, rect_IsEmpty = False,
      string_id = STR_OTHER 0, indtype = 0, time_since_load = 0, time_since_unload = 0,
      goods = []\<rparr>"

section \<open>UpdateStationRating\<close>

text \<open>
  What one pass of the loop over the cargo types reads from outside the goods entry:
  the cheat and the \<^verbatim>\<open>selectgoods\<close> setting, whether the last vehicle was a ship,
  whether the owner has a statue in the station's town, and the cargo's rating callback
  (\<open>None\<close> when the cargo has no \<^verbatim>\<open>StationRatingCalc\<close> callback, otherwise what
  \<^verbatim>\<open>GetCargoCallback\<close> returned). The constants of station\_type.h and
  newgrf\_callbacks.h are parameters as well.
\<close>

record RatingInput =
  cheat_station_rating :: bool
  selectgoods :: bool
  last_vehicle_is_ship :: bool
  owner_has_statue :: bool
  rating_callback :: "16 word option"
  INITIAL_STATION_RATING :: u8
  MAX_STATION_RATING :: u8
  CALLBACK_FAILED :: "16 word"

definition byte_inc_sat :: "u8 \<Rightarrow> u8" where
  "byte_inc_sat p = (let b = p + 1 in if b \<noteq> 0 then b else p)"

text \<open>
  Modelled from the spec: \<^verbatim>\<open>Clamp\<close> and \<^verbatim>\<open>ClampTo<uint8_t>\<close> (core/math\_func.hpp is
  not among the sources). "The new rating is clamped to change by at most \<open>\<plusminus>\<close>2 from the
  previous value per tick", and a rating is an "integer 0-255": \<open>Clamp a lo hi\<close> is the
  value of the range from \<open>lo\<close> to \<open>hi\<close> nearest to \<open>a\<close>, and \<open>ClampTo_u8\<close> clamps to
  the range of a byte.
\<close>

definition Clamp :: "int \<Rightarrow> int \<Rightarrow> int \<Rightarrow> int" where
  "Clamp a lo hi = (if a \<le> lo then lo else if a \<ge> hi then hi else a)"

definition ClampTo_u8 :: "int \<Rightarrow> u8" where
  "ClampTo_u8 a = word_of_int (Clamp a 0 255)"

text \<open>The rating computed from speed, waiting time and waiting cargo (\<^verbatim>\<open>if (!skip)\<close>).\<close>

definition rating_default :: "RatingInput \<Rightarrow> GoodsEntry \<Rightarrow> int" where
  "rating_default inp ge =
     (let b = uint (last_speed ge) - 85;
          r0 = (if b \<ge> 0 then b div 4 else 0);
          waittime = (if last_vehicle_is_ship inp then drop_bit 2 (time_since_pickup ge)
                      else time_since_pickup ge);
          r1 = r0 + (if waittime \<le> 21 then 25 else 0) + (if waittime \<le> 12 then 25 else 0)
                  + (if waittime \<le> 6 then 45 else 0) + (if waittime \<le> 3 then 35 else 0) - 90;
          mwc = max_waiting_cargo ge
      in r1 + (if mwc \<le> 1500 then 55 else 0) + (if mwc \<le> 1000 then 35 else 0)
            + (if mwc \<le> 600 then 10 else 0) + (if mwc \<le> 300 then 20 else 0)
            + (if mwc \<le> 100 then 10 else 0))"

text \<open>The statue and cargo age bonuses, added in every case.\<close>

definition rating_bonus :: "RatingInput \<Rightarrow> GoodsEntry \<Rightarrow> int" where
  "rating_bonus inp ge =
     (if owner_has_statue inp then 26 else 0)
     + (if last_age ge < 3 then 10 else 0) + (if last_age ge < 2 then 10 else 0)
     + (if last_age ge < 1 then 13 else 0)"

text \<open>
  One pass of the loop body for one goods entry, up to and including the assignment of
  the new rating. The rest of the body discards waiting cargo and stores
  \<^verbatim>\<open>max_waiting_cargo\<close>; it does not assign \<^verbatim>\<open>ge->rating\<close> and is not modelled, nor is
  the cargo list that \<^verbatim>\<open>TruncateCargo\<close> shortens.
\<close>

definition UpdateStationRating_cargo :: "RatingInput \<Rightarrow> GoodsEntry \<Rightarrow> GoodsEntry" where
  "UpdateStationRating_cargo inp ge0 =
     (let ge1 = (if \<not> HasRating ge0 \<and> rating ge0 < INITIAL_STATION_RATING inp
                 then ge0\<lparr>rating := rating ge0 + 1\<rparr> else ge0)
      in if \<not> HasRating ge1 then ge1
         else
           let ge2 = ge1\<lparr>time_since_pickup := byte_inc_sat (time_since_pickup ge1)\<rparr>
           in if time_since_pickup ge2 = 255 \<and> selectgoods inp
              then ge2\<lparr>status := status ge2 - {Rating}, last_speed := 0\<rparr>
              else
                let (skip, r, ge3) =
                      (if cheat_station_rating inp
                       then (True, uint (MAX_STATION_RATING inp),
                             ge2\<lparr>rating := MAX_STATION_RATING inp\<rparr>)
                       else case rating_callback inp of
                              None \<Rightarrow> (False, 0, ge2)
                            | Some callback \<Rightarrow>
                                if callback \<noteq> CALLBACK_FAILED inp
                                then (True,
                                      uint (callback AND 0x3FFF)
                                        - (if bit callback 14 then 0x4000 else 0), ge2)
                                else (False, 0, ge2));
                    r' = (if \<not> skip then r + rating_default inp ge3 else r)
                           + rating_bonus inp ge3;
                    or = uint (rating ge3)
                in ge3\<lparr>rating := ClampTo_u8 (or + Clamp (r' - or) (- 2) 2)\<rparr>)"

text \<open>
  The whole station: both saturating counters, then every valid cargo type in turn.
  \<open>inputs c\<close> is \<open>None\<close> for a cargo type without a valid \<^verbatim>\<open>CargoSpec\<close>, which
  \<^verbatim>\<open>CargoSpec::Iterate\<close> skips.
\<close>

definition UpdateStationRating :: "(CargoType \<Rightarrow> RatingInput option) \<Rightarrow> Station \<Rightarrow> Station" where
  "UpdateStationRating inputs st =
     st\<lparr>time_since_load := byte_inc_sat (time_since_load st),
        time_since_unload := byte_inc_sat (time_since_unload st),
        goods := map (\<lambda>c. case inputs c of
                             None \<Rightarrow> goods st ! c
                           | Some inp \<Rightarrow> UpdateStationRating_cargo inp (goods st ! c))
                     [0..<length (goods st)]\<rparr>"

section \<open>UpdateStationAcceptance\<close>

text \<open>
  Modelled from the spec: \<^verbatim>\<open>NUM_CARGO\<close> (cargo\_type.h is not among the sources), the
  size of the "fixed-size" array of goods entries "indexed by cargo type".
\<close>

definition NUM_CARGO :: nat where
  "NUM_CARGO = 64"

text \<open>
  What the function reads from outside the station: the amounts that
  \<^verbatim>\<open>GetAcceptanceAroundStation\<close> accumulates over the catchment tiles, the cargo class
  test and the validity of link graph identifiers. The demands of the link graph nodes
  are the map \<open>demand\<close>, keyed by graph and node.
\<close>

record AcceptanceInput =
  GetAcceptanceAroundStation :: "CargoType \<Rightarrow> u32"
  IsCargoInClass_Passengers :: "CargoType \<Rightarrow> bool"
  LinkGraph_IsValidID :: "nat \<Rightarrow> bool"

definition acceptance_array :: "AcceptanceInput \<Rightarrow> Station \<Rightarrow> CargoType \<Rightarrow> u32" where
  \<comment> \<open>the local \<^verbatim>\<open>CargoArray acceptance\<close>: all zero unless the station has tiles\<close>
  "acceptance_array inp st cargo =
     (if \<not> rect_IsEmpty st then GetAcceptanceAroundStation inp cargo else 0)"

definition facility_Any :: "Station \<Rightarrow> StationFacility set \<Rightarrow> bool" where
  "facility_Any st fs = (facilities st \<inter> fs \<noteq> {})"

definition acceptance_amt :: "AcceptanceInput \<Rightarrow> Station \<Rightarrow> CargoType \<Rightarrow> u32" where
  "acceptance_amt inp st cargo =
     (let amt = acceptance_array inp st cargo;
          is_passengers = IsCargoInClass_Passengers inp cargo
      in if (\<not> is_passengers \<and> \<not> facility_Any st {Train, TruckStop, Airport, Dock}) \<or>
            (is_passengers \<and> \<not> facility_Any st {Train, BusStop, Airport, Dock})
         then 0 else amt)"

fun UpdateStationAcceptance_loop ::
  "AcceptanceInput \<Rightarrow> Station \<Rightarrow> CargoType list \<Rightarrow> GoodsEntry list \<times> (nat \<times> nat \<Rightarrow> u32)
     \<Rightarrow> GoodsEntry list \<times> (nat \<times> nat \<Rightarrow> u32)" where
  "UpdateStationAcceptance_loop inp st [] s = s"
| "UpdateStationAcceptance_loop inp st (cargo # cs) (gs, demand) =
     (let amt = acceptance_amt inp st cargo;
          ge = gs ! cargo;
          ge' = ge\<lparr>status := (if amt \<ge> 8 then insert Acceptance (status ge)
                               else status ge - {Acceptance})\<rparr>
      in UpdateStationAcceptance_loop inp st cs
           (gs[cargo := ge'],
            if LinkGraph_IsValidID inp (link_graph ge')
            then demand((link_graph ge', node ge') := amt div 8) else demand))"

text \<open>
  The station and the link graph demands after the loop. What follows in the source
  compares the old and new acceptance masks to show news and redraw a window.
\<close>

definition UpdateStationAcceptance ::
  "AcceptanceInput \<Rightarrow> Station \<Rightarrow> (nat \<times> nat \<Rightarrow> u32) \<Rightarrow> Station \<times> (nat \<times> nat \<Rightarrow> u32)" where
  "UpdateStationAcceptance inp st demand =
     (let (gs, demand') = UpdateStationAcceptance_loop inp st [0..<NUM_CARGO] (goods st, demand)
      in (st\<lparr>goods := gs\<rparr>, demand'))"



section \<open>CheckBuildableTile\<close>

text \<open>
  What the check reads from the map and the settings. The slope functions of
  slope\_func.h and depot\_func.h, the flat slope and the foundation price are parameters.
  \<open>LandscapeClear\<close> is \<^verbatim>\<open>Command<CMD_LANDSCAPE_CLEAR>::Do(flags, tile)\<close>; clearing a tile
  changes neither its slope and height nor the bridge above it or the vehicles on it, so
  the readings do not depend on the tiles cleared before.
\<close>

type_synonym Slope = nat

datatype DiagDirection = DIAGDIR_NE | DIAGDIR_SE | DIAGDIR_SW | DIAGDIR_NW

record BuildEnv =
  IsBridgeAbove :: "TileIndex \<Rightarrow> bool"
  EnsureNoVehicleOnGround :: "TileIndex \<Rightarrow> CommandCost"
  GetTileSlopeZ :: "TileIndex \<Rightarrow> Slope \<times> int"
  SLOPE_FLAT :: Slope
  IsSteepSlope :: "Slope \<Rightarrow> bool"
  GetSlopeMaxZ :: "Slope \<Rightarrow> int"
  CanBuildDepotByTileh :: "DiagDirection \<Rightarrow> Slope \<Rightarrow> bool"
  build_on_slopes :: bool
  price_PR_BUILD_FOUNDATION :: int
  LandscapeClear :: "TileIndex \<Rightarrow> CommandCost"

definition flat_z :: "BuildEnv \<Rightarrow> TileIndex \<Rightarrow> int" where
  \<comment> \<open>\<^verbatim>\<open>int flat_z = z + GetSlopeMaxZ(tileh)\<close>: the height of the tile with its foundation\<close>
  "flat_z env tile = (let (tileh, z) = GetTileSlopeZ env tile in z + GetSlopeMaxZ env tileh)"

text \<open>The result and the new value of the reference parameter \<^verbatim>\<open>allowed_z\<close>.\<close>

definition CheckBuildableTile ::
  "BuildEnv \<Rightarrow> TileIndex \<Rightarrow> DiagDirection set \<Rightarrow> int \<Rightarrow> bool \<Rightarrow> bool \<Rightarrow> CommandCost \<times> int" where
  "CheckBuildableTile env tile invalid_dirs allowed_z allow_steep check_bridge =
     (if check_bridge \<and> IsBridgeAbove env tile
      then (CommandCost_error STR_ERROR_MUST_DEMOLISH_BRIDGE_FIRST, allowed_z)
      else
        let ret = EnsureNoVehicleOnGround env tile
        in if Failed ret then (ret, allowed_z)
           else
             let (tileh, z) = GetTileSlopeZ env tile
             in if (\<not> allow_steep \<and> IsSteepSlope env tileh) \<or>
                   (\<not> build_on_slopes env \<and> tileh \<noteq> SLOPE_FLAT env)
                then (CommandCost_error STR_ERROR_FLAT_LAND_REQUIRED, allowed_z)
                else if tileh \<noteq> SLOPE_FLAT env \<and>
                        (\<exists>dir \<in> set [DIAGDIR_NE, DIAGDIR_SE, DIAGDIR_SW, DIAGDIR_NW].
                            dir \<in> invalid_dirs \<and> \<not> CanBuildDepotByTileh env dir tileh)
                then (CommandCost_error STR_ERROR_FLAT_LAND_REQUIRED, allowed_z)
                else
                  let cost0 = (if tileh \<noteq> SLOPE_FLAT env
                               then AddCost CommandCost_ok (price_PR_BUILD_FOUNDATION env)
                               else CommandCost_ok);
                      flat_z = z + GetSlopeMaxZ env tileh
                  in if allowed_z < 0 then (cost0, flat_z)
                     else if allowed_z \<noteq> flat_z
                     then (CommandCost_error STR_ERROR_FLAT_LAND_REQUIRED, allowed_z)
                     else (cost0, allowed_z))"

text \<open>
  \<^verbatim>\<open>CheckFlatLandAirport\<close>: the tiles of the footprint in the order of the iterator; the
  loop state is the cost so far (\<open>acc\<close>) and \<^verbatim>\<open>allowed_z\<close>, which starts at \<open>-1\<close>.
\<close>

fun CheckFlatLandAirport_loop :: "BuildEnv \<Rightarrow> TileIndex list \<Rightarrow> CommandCost \<times> int \<Rightarrow> CommandCost" where
  "CheckFlatLandAirport_loop env [] (acc, allowed_z) = acc"
| "CheckFlatLandAirport_loop env (tile # tiles) (acc, allowed_z) =
     (let (ret, allowed_z') = CheckBuildableTile env tile {} allowed_z True True
      in if Failed ret then ret
         else
           let cost1 = AddCost acc (cost ret);
               ret2 = LandscapeClear env tile
           in if Failed ret2 then ret2
              else CheckFlatLandAirport_loop env tiles
                     (AddCost cost1 (cost ret2), allowed_z'))"

definition CheckFlatLandAirport :: "BuildEnv \<Rightarrow> TileIndex list \<Rightarrow> CommandCost" where
  "CheckFlatLandAirport env tiles = CheckFlatLandAirport_loop env tiles (CommandCost_ok, - 1)"

text \<open>
  A two tile footprint: level land at heights 1 and 2, a bridge above the second tile,
  no vehicles, nothing that stops clearing.
\<close>

definition bridge_env :: BuildEnv where
  "bridge_env =
     \<lparr>IsBridgeAbove = (\<lambda>t. t = 1),
      EnsureNoVehicleOnGround = (\<lambda>t. CommandCost_ok),
      GetTileSlopeZ = (\<lambda>t. (0, if t = 0 then 1 else 2)),
      SLOPE_FLAT = 0,
      IsSteepSlope = (\<lambda>s. False),
      GetSlopeMaxZ = (\<lambda>s. if s = 0 then 0 else 1),
      CanBuildDepotByTileh = (\<lambda>d s. True),
      build_on_slopes = True,
      price_PR_BUILD_FOUNDATION = 100,
      LandscapeClear = (\<lambda>t. CommandCost_ok)\<rparr>"

definition level_env :: BuildEnv where
  \<comment> \<open>the same footprint without the bridge\<close>
  "level_env = bridge_env\<lparr>IsBridgeAbove := (\<lambda>t. False)\<rparr>"

section \<open>GetStationAround and FindJoiningBaseStation\<close>

datatype TileType =
  MP_CLEAR | MP_RAILWAY | MP_ROAD | MP_HOUSE | MP_TREES | MP_STATION | MP_WATER | MP_VOID
  | MP_INDUSTRY | MP_TUNNELBRIDGE | MP_OBJECT

record Map =
  GetTileType :: "TileIndex \<Rightarrow> TileType"
  GetStationIndex :: "TileIndex \<Rightarrow> StationID"
  GetIndustryType :: "TileIndex \<Rightarrow> IndustryType"

text \<open>
  The readings of a tile (tile\_map.h, station\_map.h and industry\_map.h are not among the
  sources) are the fields of the map; \<^verbatim>\<open>IsTileType\<close> compares the type of a tile.
\<close>

definition IsTileType :: "Map \<Rightarrow> TileIndex \<Rightarrow> TileType \<Rightarrow> bool" where
  "IsTileType m tile ty = (GetTileType m tile = ty)"

record TileArea =
  tile :: TileIndex
  w :: nat
  h :: nat

text \<open>
  \<^verbatim>\<open>TileArea::Expand\<close> and the iteration over the tiles of an area (tilearea\_type.h) are
  parameters. A pointer to a station is the identifier of the pool item it points to,
  \<open>None\<close> is \<^verbatim>\<open>nullptr\<close>; the pool maps the valid identifiers of the station class
  \<^verbatim>\<open>T\<close> to their items.
\<close>

record TileAreaOps =
  Expand :: "TileArea \<Rightarrow> int \<Rightarrow> TileArea"
  TileIterator :: "TileArea \<Rightarrow> TileIndex list"

type_synonym StationPool = "StationID \<Rightarrow> Station option"

definition station_matches :: "StationPool \<Rightarrow> CompanyID \<Rightarrow> (Station \<Rightarrow> bool) \<Rightarrow> StationID \<Rightarrow> bool" where
  \<comment> \<open>the negation of the \<^verbatim>\<open>continue\<close> condition of the loop\<close>
  "station_matches pool company filter_fn t =
     (case pool t of None \<Rightarrow> False | Some s \<Rightarrow> owner s = company \<and> filter_fn s)"

fun GetStationAround_loop ::
  "Map \<Rightarrow> StationPool \<Rightarrow> CompanyID \<Rightarrow> (Station \<Rightarrow> bool) \<Rightarrow> TileIndex list \<Rightarrow> StationID
     \<Rightarrow> CommandCost + StationID" where
  "GetStationAround_loop m pool company filter_fn [] closest_station = Inr closest_station"
| "GetStationAround_loop m pool company filter_fn (tile_cur # tiles) closest_station =
     (if IsTileType m tile_cur MP_STATION then
        (let t = GetStationIndex m tile_cur
         in if \<not> station_matches pool company filter_fn t
            then GetStationAround_loop m pool company filter_fn tiles closest_station
            else if closest_station = StationID_Invalid
            then GetStationAround_loop m pool company filter_fn tiles t
            else if closest_station \<noteq> t
            then Inl (CommandCost_error STR_ERROR_ADJOINS_MORE_THAN_ONE_EXISTING)
            else GetStationAround_loop m pool company filter_fn tiles closest_station)
      else GetStationAround_loop m pool company filter_fn tiles closest_station)"

text \<open>The result and the value of \<^verbatim>\<open>*st\<close> afterwards; a failure leaves \<^verbatim>\<open>*st\<close> as it was.\<close>

definition GetStationAround ::
  "Map \<Rightarrow> StationPool \<Rightarrow> TileAreaOps \<Rightarrow> TileArea \<Rightarrow> StationID \<Rightarrow> CompanyID \<Rightarrow> StationID option
     \<Rightarrow> (Station \<Rightarrow> bool) \<Rightarrow> CommandCost \<times> StationID option" where
  "GetStationAround m pool ops ta closest_station company st filter_fn =
     (case GetStationAround_loop m pool company filter_fn (TileIterator ops (Expand ops ta 1))
             closest_station of
        Inl err \<Rightarrow> (err, st)
      | Inr closest \<Rightarrow>
          (CommandCost_ok, if closest = StationID_Invalid then None else Some closest))"

definition GetIfValid :: "StationPool \<Rightarrow> StationID \<Rightarrow> StationID option" where
  "GetIfValid pool t = (case pool t of None \<Rightarrow> None | Some s \<Rightarrow> Some t)"

definition FindJoiningBaseStation ::
  "Map \<Rightarrow> StationPool \<Rightarrow> TileAreaOps \<Rightarrow> CompanyID \<Rightarrow> StringID \<Rightarrow> StationID \<Rightarrow> StationID \<Rightarrow> bool
     \<Rightarrow> TileArea \<Rightarrow> (Station \<Rightarrow> bool) \<Rightarrow> CommandCost \<times> StationID option" where
  "FindJoiningBaseStation m pool ops current_company error_message existing_station
       station_to_join adjacent ta filter_fn =
     (if existing_station \<noteq> StationID_Invalid \<and> adjacent \<and> existing_station \<noteq> station_to_join
      then (CommandCost_error error_message, None)
      else
        let st0 = (if existing_station \<noteq> StationID_Invalid
                   then (case pool existing_station of
                           None \<Rightarrow> None
                         | Some candidate \<Rightarrow> if filter_fn candidate then Some existing_station else None)
                   else None);
            check_surrounding = (if existing_station \<noteq> StationID_Invalid then st0 = None
                                 else \<not> adjacent);
            (ret, st1) = (if check_surrounding
                          then GetStationAround m pool ops ta existing_station current_company
                                 st0 filter_fn
                          else (CommandCost_ok, st0))
        in if Failed ret then (ret, st1)
           else (CommandCost_ok,
                 if st1 = None \<and> station_to_join \<noteq> StationID_Invalid
                 then GetIfValid pool station_to_join else st1))"

text \<open>
  The stations that the scan of a list of tiles meets: those of the given company that
  pass the filter.
\<close>

definition stations_around ::
  "Map \<Rightarrow> StationPool \<Rightarrow> CompanyID \<Rightarrow> (Station \<Rightarrow> bool) \<Rightarrow> TileIndex list \<Rightarrow> StationID set" where
  "stations_around m pool company filter_fn tiles =
     set (map (GetStationIndex m)
            (filter (\<lambda>t. IsTileType m t MP_STATION \<and>
                          station_matches pool company filter_fn (GetStationIndex m t)) tiles))"



section \<open>The flat land checks of rail stations and road stops\<close>

text \<open>
  \<^verbatim>\<open>CalculateRailStationCost\<close> and \<^verbatim>\<open>CalculateRoadStopCost\<close> run
  \<^verbatim>\<open>CheckBuildableTile\<close> over the tiles of the area with one \<^verbatim>\<open>allowed_z\<close>, as
  \<^verbatim>\<open>CheckFlatLandAirport\<close> does over the tiles of the airport. What they read from the map
  beyond the tile type and the station of a tile (rail\_map.h, road\_map.h, station\_map.h,
  the rail and road type tables, the prices and the settings are not among the sources) is
  a parameter: a field of \<open>RailTileEnv\<close> or of \<open>RoadTileEnv\<close>. Both reach
  \<^verbatim>\<open>ClearTile_Station(tile, DoCommandFlag::Auto)\<close>, the field of the record they extend.
  An enum bit set is a set; a pointer to a train is an identifier, \<open>None\<close> is
  \<^verbatim>\<open>nullptr\<close>, also for the pointer \<^verbatim>\<open>station\<close>. Money is an integer, as in
  \<open>AddCost\<close>. As for the airport, the commands that clear a tile or remove a rail leave
  the readings of the other tiles as they are.
\<close>

datatype Axis = AXIS_X | AXIS_Y

datatype RoadTramType = RTT_ROAD | RTT_TRAM

datatype StationCallbackMask = SlopeCheck | StationCallback nat

type_synonym RailType = nat
type_synonym RoadType = nat
type_synonym Track = nat
type_synonym TrackBits = "Track set"
type_synonym RoadBits = "nat set"
type_synonym Owner = nat
type_synonym StationType = nat
type_synonym TrainID = nat
type_synonym StationClassID = nat

record StationSpec =
  callback_mask :: "StationCallbackMask set"

record TileEnv =
  ClearTile_Station :: "TileIndex \<Rightarrow> CommandCost"

record RailTileEnv = TileEnv +
  AxisToDiagDirs :: "Axis \<Rightarrow> DiagDirection set"
  GetSpec :: "StationClassID \<Rightarrow> 16 word \<Rightarrow> StationSpec option"
  PerformStationTileSlopeCheck ::
    "TileIndex \<Rightarrow> TileIndex \<Rightarrow> StationSpec \<Rightarrow> Axis \<Rightarrow> u8 \<Rightarrow> u8 \<Rightarrow> CommandCost"
  IsRailStation :: "TileIndex \<Rightarrow> bool"
  INVALID_RAILTYPE :: RailType
  IsPlainRailTile :: "TileIndex \<Rightarrow> bool"
  HasSignals :: "TileIndex \<Rightarrow> bool"
  GetRailType :: "TileIndex \<Rightarrow> RailType"
  HasPowerOnRail :: "RailType \<Rightarrow> RailType \<Rightarrow> bool"
  GetTrackBits :: "TileIndex \<Rightarrow> TrackBits"
  RemoveFirstTrack :: "TrackBits \<Rightarrow> Track \<times> TrackBits"
  TRACK_X :: Track
  TRACK_Y :: Track
  GetRailReservationTrackBits :: "TileIndex \<Rightarrow> TrackBits"
  GetTrainForReservation :: "TileIndex \<Rightarrow> Track \<Rightarrow> TrainID option"
  RemoveSingleRail :: "TileIndex \<Rightarrow> Track \<Rightarrow> CommandCost"
  IsRailStationTile :: "TileIndex \<Rightarrow> bool"
  GetRailStationAxis :: "TileIndex \<Rightarrow> Axis"
  price_PR_BUILD_STATION_RAIL :: int
  price_PR_BUILD_STATION_RAIL_LENGTH :: int
  RailBuildCost :: "RailType \<Rightarrow> int"

text \<open>
  The part of \<^verbatim>\<open>CheckFlatLandRailStation\<close> after the slope checks: the result, \<^verbatim>\<open>*station\<close>
  and \<^verbatim>\<open>affected_vehicles\<close> afterwards. \<open>cost0\<close> is \<^verbatim>\<open>cost\<close> at that point.
\<close>

definition CheckFlatLandRailStation_tile ::
  "BuildEnv \<Rightarrow> Map \<Rightarrow> RailTileEnv \<Rightarrow> TileIndex \<Rightarrow> DiagDirection set \<Rightarrow> StationID option \<Rightarrow> RailType
     \<Rightarrow> TrainID list \<Rightarrow> CommandCost \<Rightarrow> CommandCost \<times> StationID option \<times> TrainID list" where
  "CheckFlatLandRailStation_tile env m renv tile_cur invalid_dirs station rt affected_vehicles cost0 =
     (if station \<noteq> None \<and> IsTileType m tile_cur MP_STATION then
        (if \<not> IsRailStation renv tile_cur
         then (ClearTile_Station renv tile_cur, station, affected_vehicles)
         else
           let st = GetStationIndex m tile_cur
           in if station = Some StationID_Invalid then (cost0, Some st, affected_vehicles)
              else if station \<noteq> Some st
              then (CommandCost_error STR_ERROR_ADJOINS_MORE_THAN_ONE_EXISTING, station,
                    affected_vehicles)
              else (cost0, station, affected_vehicles))
      else
        let clear = (let ret = LandscapeClear env tile_cur
                     in if Failed ret then (ret, station, affected_vehicles)
                        else (AddCost cost0 (cost ret), station, affected_vehicles))
        in if rt \<noteq> INVALID_RAILTYPE renv \<and> IsPlainRailTile renv tile_cur then
             (if HasSignals renv tile_cur
              then (CommandCost_error STR_ERROR_MUST_REMOVE_SIGNALS_FIRST, station,
                    affected_vehicles)
              else if HasPowerOnRail renv (GetRailType renv tile_cur) rt then
                (let (track, tracks) = RemoveFirstTrack renv (GetTrackBits renv tile_cur);
                     expected_track = (if DIAGDIR_NE \<in> invalid_dirs then TRACK_X renv
                                       else TRACK_Y renv)
                 in if tracks = {} \<and> track = expected_track then
                      (let affected' =
                             (if track \<in> GetRailReservationTrackBits renv tile_cur
                              then (case GetTrainForReservation renv tile_cur track of
                                      None \<Rightarrow> affected_vehicles
                                    | Some v \<Rightarrow> affected_vehicles @ [v])
                              else affected_vehicles);
                           ret = RemoveSingleRail renv tile_cur track
                       in if Failed ret then (ret, station, affected')
                          else (AddCost cost0 (cost ret), station, affected'))
                    else clear)
              else clear)
           else clear)"

text \<open>
  \<^verbatim>\<open>CheckFlatLandRailStation\<close>: the result and \<^verbatim>\<open>allowed_z\<close>, \<^verbatim>\<open>*station\<close> and
  \<^verbatim>\<open>affected_vehicles\<close> afterwards.
\<close>

definition CheckFlatLandRailStation ::
  "BuildEnv \<Rightarrow> Map \<Rightarrow> RailTileEnv \<Rightarrow> TileIndex \<Rightarrow> TileIndex \<Rightarrow> int \<Rightarrow> Axis \<Rightarrow> StationID option
     \<Rightarrow> RailType \<Rightarrow> TrainID list \<Rightarrow> StationClassID \<Rightarrow> 16 word \<Rightarrow> u8 \<Rightarrow> u8
     \<Rightarrow> CommandCost \<times> int \<times> StationID option \<times> TrainID list" where
  "CheckFlatLandRailStation env m renv tile_cur north_tile allowed_z axis station rt
       affected_vehicles spec_class spec_index plat_len numtracks =
     (let invalid_dirs = AxisToDiagDirs renv axis;
          statspec = GetSpec renv spec_class spec_index;
          (ret, allowed_z') = CheckBuildableTile env tile_cur invalid_dirs allowed_z False True
      in if Failed ret then (ret, allowed_z', station, affected_vehicles)
         else
           let cost0 = AddCost CommandCost_ok (cost ret);
               ret_cb = (case statspec of
                           None \<Rightarrow> CommandCost_ok
                         | Some spec \<Rightarrow>
                             if SlopeCheck \<in> callback_mask spec
                             then PerformStationTileSlopeCheck renv north_tile tile_cur spec axis
                                    plat_len numtracks
                             else CommandCost_ok)
           in if Failed ret_cb then (ret_cb, allowed_z', station, affected_vehicles)
              else
                let (res, station', affected') =
                      CheckFlatLandRailStation_tile env m renv tile_cur invalid_dirs station rt
                        affected_vehicles cost0
                in (res, allowed_z', station', affected'))"

text \<open>
  \<^verbatim>\<open>CalculateRailStationCost\<close>: \<open>tile_area\<close> holds the tiles of the area in the order of
  the iteration and \<open>north_tile\<close> is \<^verbatim>\<open>tile_area.tile\<close>. The loop state is \<^verbatim>\<open>cost\<close>,
  \<^verbatim>\<open>length_price_ready\<close>, \<^verbatim>\<open>tracknum\<close>, \<^verbatim>\<open>allowed_z\<close>, \<^verbatim>\<open>*station\<close> and
  \<^verbatim>\<open>affected_vehicles\<close>; the result comes with the last two.
\<close>

fun CalculateRailStationCost_loop ::
  "BuildEnv \<Rightarrow> Map \<Rightarrow> RailTileEnv \<Rightarrow> TileIndex \<Rightarrow> Axis \<Rightarrow> RailType \<Rightarrow> StationClassID \<Rightarrow> 16 word
     \<Rightarrow> u8 \<Rightarrow> u8 \<Rightarrow> TileIndex list
     \<Rightarrow> CommandCost \<times> bool \<times> u8 \<times> int \<times> StationID option \<times> TrainID list
     \<Rightarrow> CommandCost \<times> StationID option \<times> TrainID list" where
  "CalculateRailStationCost_loop env m renv north_tile axis rt spec_class spec_index plat_len
       numtracks [] (acc, length_price_ready, tracknum, allowed_z, station, affected_vehicles) =
     (acc, station, affected_vehicles)"
| "CalculateRailStationCost_loop env m renv north_tile axis rt spec_class spec_index plat_len
       numtracks (cur_tile # tiles)
       (acc, length_price_ready, tracknum, allowed_z, station, affected_vehicles) =
     (let (ret, allowed_z', station', affected') =
            CheckFlatLandRailStation env m renv cur_tile north_tile allowed_z axis station rt
              affected_vehicles spec_class spec_index plat_len numtracks
      in if Failed ret then (ret, station', affected')
         else
           let (ready1, tracknum') = (if tracknum = numtracks then (True, 0)
                                      else (length_price_ready, tracknum + 1));
               is_new = (\<not> IsRailStationTile renv cur_tile \<or>
                         (IsRailStationTile renv cur_tile \<and>
                          GetRailStationAxis renv cur_tile \<noteq> axis));
               cost1 = (if is_new
                        then AddCost (AddCost (AddCost acc (cost ret))
                               (price_PR_BUILD_STATION_RAIL renv)) (RailBuildCost renv rt)
                        else acc);
               (cost2, ready2) = (if is_new \<and> ready1
                                  then (AddCost cost1 (price_PR_BUILD_STATION_RAIL_LENGTH renv),
                                        False)
                                  else (cost1, ready1))
           in CalculateRailStationCost_loop env m renv north_tile axis rt spec_class spec_index
                plat_len numtracks tiles
                (cost2, ready2, tracknum', allowed_z', station', affected'))"

definition CalculateRailStationCost ::
  "BuildEnv \<Rightarrow> Map \<Rightarrow> RailTileEnv \<Rightarrow> TileIndex list \<Rightarrow> TileIndex \<Rightarrow> Axis \<Rightarrow> StationID option
     \<Rightarrow> RailType \<Rightarrow> TrainID list \<Rightarrow> StationClassID \<Rightarrow> 16 word \<Rightarrow> u8 \<Rightarrow> u8
     \<Rightarrow> CommandCost \<times> StationID option \<times> TrainID list" where
  "CalculateRailStationCost env m renv tile_area north_tile axis station rt affected_vehicles
       spec_class spec_index plat_len numtracks =
     CalculateRailStationCost_loop env m renv north_tile axis rt spec_class spec_index plat_len
       numtracks tile_area (CommandCost_ok, True, 0, - 1, station, affected_vehicles)"

record RoadTileEnv = TileEnv +
  AxisToDiagDir :: "Axis \<Rightarrow> DiagDirection"
  ReverseDiagDir :: "DiagDirection \<Rightarrow> DiagDirection"
  IsAnyRoadStop :: "TileIndex \<Rightarrow> bool"
  GetStationType :: "TileIndex \<Rightarrow> StationType"
  IsDriveThroughStopTile :: "TileIndex \<Rightarrow> bool"
  GetDriveThroughStopAxis :: "TileIndex \<Rightarrow> Axis"
  IsNormalRoadTile :: "TileIndex \<Rightarrow> bool"
  GetAllRoadBits :: "TileIndex \<Rightarrow> RoadBits"
  GetRoadBits :: "TileIndex \<Rightarrow> RoadTramType \<Rightarrow> RoadBits"
  ROAD_X :: RoadBits
  ROAD_Y :: RoadBits
  INVALID_ROADTYPE :: RoadType
  GetRoadType :: "TileIndex \<Rightarrow> RoadTramType \<Rightarrow> RoadType"
  GetRoadOwner :: "TileIndex \<Rightarrow> RoadTramType \<Rightarrow> Owner"
  OWNER_TOWN :: Owner
  OWNER_NONE :: Owner
  Company_IsValidID :: "Owner \<Rightarrow> bool"
  CheckOwnership_owner :: "Owner \<Rightarrow> CommandCost"
  road_stop_on_town_road :: bool
  road_stop_on_competitor_road :: bool
  RoadTypeIsRoad :: "RoadType \<Rightarrow> bool"
  RoadTypeIsTram :: "RoadType \<Rightarrow> bool"
  HasPowerOnRoad :: "RoadType \<Rightarrow> RoadType \<Rightarrow> bool"
  HasDisallowedRoadDirections :: "TileIndex \<Rightarrow> bool"
  RoadBuildCost :: "RoadType \<Rightarrow> int"

definition CountBits :: "RoadBits \<Rightarrow> u32" where
  \<comment> \<open>the number of road pieces, a \<^verbatim>\<open>uint\<close>\<close>
  "CountBits rb = of_nat (card rb)"

text \<open>
  The two blocks of \<^verbatim>\<open>CheckFlatLandRoadStop\<close> that look at the road and at the tram
  track under a drive-through stop. \<open>Inl\<close> is a \<^verbatim>\<open>return\<close> from the function,
  \<open>Inr\<close> the value of \<^verbatim>\<open>cost\<close> after the block. \<open>HasDisallowedRoadDirections\<close> is
  \<^verbatim>\<open>GetDisallowedRoadDirections(cur_tile) != DRD_NONE\<close>; \<^verbatim>\<open>2 - num_pieces\<close> is computed
  in \<^verbatim>\<open>uint\<close>.
\<close>

definition CheckFlatLandRoadStop_road ::
  "RoadTileEnv \<Rightarrow> TileIndex \<Rightarrow> RoadType \<Rightarrow> CommandCost \<Rightarrow> CommandCost + CommandCost" where
  "CheckFlatLandRoadStop_road denv cur_tile rt cost0 =
     (let road_rt = GetRoadType denv cur_tile RTT_ROAD
      in if road_rt \<noteq> INVALID_ROADTYPE denv then
           (let road_owner = GetRoadOwner denv cur_tile RTT_ROAD;
                ret1 = (if road_owner = OWNER_TOWN denv
                        then (if \<not> road_stop_on_town_road denv
                              then CommandCost_error STR_ERROR_DRIVE_THROUGH_ON_TOWN_ROAD
                              else CommandCost_ok)
                        else if \<not> road_stop_on_competitor_road denv \<and>
                                road_owner \<noteq> OWNER_NONE denv
                        then CheckOwnership_owner denv road_owner
                        else CommandCost_ok)
            in if Failed ret1 then Inl ret1
               else
                 let num_pieces = CountBits (GetRoadBits denv cur_tile RTT_ROAD)
                 in if rt \<noteq> INVALID_ROADTYPE denv \<and> RoadTypeIsRoad denv rt \<and>
                       \<not> HasPowerOnRoad denv rt road_rt
                    then Inl (CommandCost_error STR_ERROR_NO_SUITABLE_ROAD)
                    else
                      let ret2 = (if HasDisallowedRoadDirections denv cur_tile \<and>
                                     road_owner \<noteq> OWNER_TOWN denv
                                  then CheckOwnership_owner denv road_owner
                                  else CommandCost_ok)
                      in if Failed ret2 then Inl ret2
                         else Inr (AddCost cost0
                                     (RoadBuildCost denv road_rt * uint (2 - num_pieces))))
         else if rt \<noteq> INVALID_ROADTYPE denv \<and> RoadTypeIsRoad denv rt
         then Inr (AddCost cost0 (RoadBuildCost denv rt * 2))
         else Inr cost0)"

definition CheckFlatLandRoadStop_tram ::
  "RoadTileEnv \<Rightarrow> TileIndex \<Rightarrow> RoadType \<Rightarrow> CommandCost \<Rightarrow> CommandCost + CommandCost" where
  "CheckFlatLandRoadStop_tram denv cur_tile rt cost0 =
     (let tram_rt = GetRoadType denv cur_tile RTT_TRAM
      in if tram_rt \<noteq> INVALID_ROADTYPE denv then
           (let tram_owner = GetRoadOwner denv cur_tile RTT_TRAM;
                ret1 = (if Company_IsValidID denv tram_owner \<and>
                           (\<not> road_stop_on_competitor_road denv \<or>
                            card (GetRoadBits denv cur_tile RTT_TRAM) = 1)
                        then CheckOwnership_owner denv tram_owner
                        else CommandCost_ok)
            in if Failed ret1 then Inl ret1
               else
                 let num_pieces = CountBits (GetRoadBits denv cur_tile RTT_TRAM)
                 in if rt \<noteq> INVALID_ROADTYPE denv \<and> RoadTypeIsTram denv rt \<and>
                       \<not> HasPowerOnRoad denv rt tram_rt
                    then Inl (CommandCost_error STR_ERROR_NO_SUITABLE_ROAD)
                    else Inr (AddCost cost0
                                (RoadBuildCost denv tram_rt * uint (2 - num_pieces))))
         else if rt \<noteq> INVALID_ROADTYPE denv \<and> RoadTypeIsTram denv rt
         then Inr (AddCost cost0 (RoadBuildCost denv rt * 2))
         else Inr cost0)"

text \<open>
  The part of \<^verbatim>\<open>CheckFlatLandRoadStop\<close> after \<^verbatim>\<open>CheckBuildableTile\<close>: the result and
  \<^verbatim>\<open>*station\<close> afterwards.
\<close>

definition CheckFlatLandRoadStop_tile ::
  "BuildEnv \<Rightarrow> Map \<Rightarrow> RoadTileEnv \<Rightarrow> TileIndex \<Rightarrow> bool \<Rightarrow> StationType \<Rightarrow> Axis \<Rightarrow> StationID option
     \<Rightarrow> RoadType \<Rightarrow> CommandCost \<Rightarrow> CommandCost \<times> StationID option" where
  "CheckFlatLandRoadStop_tile env m denv cur_tile is_drive_through station_type axis station rt
       cost0 =
     (if station \<noteq> None \<and> IsTileType m cur_tile MP_STATION then
        (if \<not> IsAnyRoadStop denv cur_tile then (ClearTile_Station denv cur_tile, station)
         else if station_type \<noteq> GetStationType denv cur_tile \<or>
                 is_drive_through \<noteq> IsDriveThroughStopTile denv cur_tile
         then (ClearTile_Station denv cur_tile, station)
         else if is_drive_through \<and> IsDriveThroughStopTile denv cur_tile \<and>
                 GetDriveThroughStopAxis denv cur_tile \<noteq> axis
         then (CommandCost_error STR_ERROR_DRIVE_THROUGH_DIRECTION, station)
         else
           let st = GetStationIndex m cur_tile
           in if station = Some StationID_Invalid then (cost0, Some st)
              else if station \<noteq> Some st
              then (CommandCost_error STR_ERROR_ADJOINS_MORE_THAN_ONE_EXISTING, station)
              else (cost0, station))
      else
        let build_over_road = (is_drive_through \<and> IsNormalRoadTile denv cur_tile);
            rb = (if IsNormalRoadTile denv cur_tile then GetAllRoadBits denv cur_tile else {})
        in if build_over_road \<and>
              rb \<inter> (if axis = AXIS_X then ROAD_Y denv else ROAD_X denv) \<noteq> {}
           then
             (if CountBits rb = 1
              then (CommandCost_error STR_ERROR_DRIVE_THROUGH_DIRECTION, station)
              else if CountBits rb = 2
              then (if rb = ROAD_X denv \<or> rb = ROAD_Y denv
                    then (CommandCost_error STR_ERROR_DRIVE_THROUGH_DIRECTION, station)
                    else (CommandCost_error STR_ERROR_DRIVE_THROUGH_CORNER, station))
              else (CommandCost_error STR_ERROR_DRIVE_THROUGH_JUNCTION, station))
           else if build_over_road then
             (case CheckFlatLandRoadStop_road denv cur_tile rt cost0 of
                Inl ret \<Rightarrow> (ret, station)
              | Inr cost1 \<Rightarrow>
                  (case CheckFlatLandRoadStop_tram denv cur_tile rt cost1 of
                     Inl ret \<Rightarrow> (ret, station)
                   | Inr cost2 \<Rightarrow> (cost2, station)))
           else if rt = INVALID_ROADTYPE denv
           then (CommandCost_error STR_ERROR_THERE_IS_NO_ROAD, station)
           else
             let ret = LandscapeClear env cur_tile
             in if Failed ret then (ret, station)
                else (AddCost (AddCost cost0 (cost ret)) (RoadBuildCost denv rt * 2), station))"

text \<open>
  \<^verbatim>\<open>CheckFlatLandRoadStop\<close>: the result and \<^verbatim>\<open>allowed_z\<close> and \<^verbatim>\<open>*station\<close> afterwards.
\<close>

definition CheckFlatLandRoadStop ::
  "BuildEnv \<Rightarrow> Map \<Rightarrow> RoadTileEnv \<Rightarrow> TileIndex \<Rightarrow> int \<Rightarrow> DiagDirection set \<Rightarrow> bool \<Rightarrow> StationType
     \<Rightarrow> Axis \<Rightarrow> StationID option \<Rightarrow> RoadType \<Rightarrow> CommandCost \<times> int \<times> StationID option" where
  "CheckFlatLandRoadStop env m denv cur_tile allowed_z invalid_dirs is_drive_through station_type
       axis station rt =
     (let (ret, allowed_z') =
            CheckBuildableTile env cur_tile invalid_dirs allowed_z (\<not> is_drive_through) True
      in if Failed ret then (ret, allowed_z', station)
         else
           let (res, station') =
                 CheckFlatLandRoadStop_tile env m denv cur_tile is_drive_through station_type axis
                   station rt (AddCost CommandCost_ok (cost ret))
           in (res, allowed_z', station'))"

text \<open>
  \<^verbatim>\<open>CalculateRoadStopCost\<close>: \<open>tile_area\<close> holds the tiles of the area in the order of the
  iteration. The loop state is \<^verbatim>\<open>cost\<close>, \<^verbatim>\<open>allowed_z\<close> and \<^verbatim>\<open>*est\<close>; the result comes
  with the last.
\<close>

definition road_invalid_dirs :: "RoadTileEnv \<Rightarrow> bool \<Rightarrow> Axis \<Rightarrow> DiagDirection \<Rightarrow> DiagDirection set" where
  \<comment> \<open>\<^verbatim>\<open>invalid_dirs\<close> of \<^verbatim>\<open>CalculateRoadStopCost\<close>\<close>
  "road_invalid_dirs denv is_drive_through axis ddir =
     (if is_drive_through
      then {AxisToDiagDir denv axis, ReverseDiagDir denv (AxisToDiagDir denv axis)}
      else {ddir})"

fun CalculateRoadStopCost_loop ::
  "BuildEnv \<Rightarrow> Map \<Rightarrow> RoadTileEnv \<Rightarrow> DiagDirection set \<Rightarrow> bool \<Rightarrow> StationType \<Rightarrow> Axis \<Rightarrow> RoadType
     \<Rightarrow> int \<Rightarrow> TileIndex list \<Rightarrow> CommandCost \<times> int \<times> StationID option
     \<Rightarrow> CommandCost \<times> StationID option" where
  "CalculateRoadStopCost_loop env m denv invalid_dirs is_drive_through station_type axis rt
       unit_cost [] (acc, allowed_z, est) = (acc, est)"
| "CalculateRoadStopCost_loop env m denv invalid_dirs is_drive_through station_type axis rt
       unit_cost (cur_tile # tiles) (acc, allowed_z, est) =
     (let (ret, allowed_z', est') =
            CheckFlatLandRoadStop env m denv cur_tile allowed_z invalid_dirs is_drive_through
              station_type axis est rt
      in if Failed ret then (ret, est')
         else
           let is_preexisting_roadstop =
                 (IsTileType m cur_tile MP_STATION \<and> IsAnyRoadStop denv cur_tile);
               cost1 = (if \<not> is_preexisting_roadstop
                        then AddCost (AddCost acc (cost ret)) unit_cost
                        else acc)
           in CalculateRoadStopCost_loop env m denv invalid_dirs is_drive_through station_type
                axis rt unit_cost tiles (cost1, allowed_z', est'))"

definition CalculateRoadStopCost ::
  "BuildEnv \<Rightarrow> Map \<Rightarrow> RoadTileEnv \<Rightarrow> TileIndex list \<Rightarrow> bool \<Rightarrow> StationType \<Rightarrow> Axis \<Rightarrow> DiagDirection
     \<Rightarrow> StationID option \<Rightarrow> RoadType \<Rightarrow> int \<Rightarrow> CommandCost \<times> StationID option" where
  "CalculateRoadStopCost env m denv tile_area is_drive_through station_type axis ddir est rt
       unit_cost =
     CalculateRoadStopCost_loop env m denv
       (road_invalid_dirs denv is_drive_through axis ddir) is_drive_through station_type axis rt
       unit_cost tile_area (CommandCost_ok, - 1, est)"

text \<open>
  A map without stations, rails or roads, on which a rail station or a road stop is built
  over a footprint. With \<open>bridge_env\<close> and \<open>level_env\<close> its two tiles have the heights 1 and 2.
\<close>

definition bare_map :: Map where
  "bare_map =
     \<lparr>GetTileType = (\<lambda>t. MP_CLEAR),
      GetStationIndex = (\<lambda>t. StationID_Invalid),
      GetIndustryType = (\<lambda>t. 0)\<rparr>"

definition bare_rail :: RailTileEnv where
  "bare_rail =
     \<lparr>ClearTile_Station = (\<lambda>t. CommandCost_error STR_UNDEFINED),
      AxisToDiagDirs = (\<lambda>a. if a = AXIS_X then {DIAGDIR_NE, DIAGDIR_SW}
                             else {DIAGDIR_SE, DIAGDIR_NW}),
      GetSpec = (\<lambda>c i. None),
      PerformStationTileSlopeCheck = (\<lambda>n t s a p k. CommandCost_ok),
      IsRailStation = (\<lambda>t. False),
      INVALID_RAILTYPE = 255,
      IsPlainRailTile = (\<lambda>t. False),
      HasSignals = (\<lambda>t. False),
      GetRailType = (\<lambda>t. 255),
      HasPowerOnRail = (\<lambda>a b. True),
      GetTrackBits = (\<lambda>t. {}),
      RemoveFirstTrack = (\<lambda>b. (255, b)),
      TRACK_X = 0,
      TRACK_Y = 1,
      GetRailReservationTrackBits = (\<lambda>t. {}),
      GetTrainForReservation = (\<lambda>t k. None),
      RemoveSingleRail = (\<lambda>t k. CommandCost_ok),
      IsRailStationTile = (\<lambda>t. False),
      GetRailStationAxis = (\<lambda>t. AXIS_X),
      price_PR_BUILD_STATION_RAIL = 50,
      price_PR_BUILD_STATION_RAIL_LENGTH = 20,
      RailBuildCost = (\<lambda>r. 10)\<rparr>"

definition bare_road :: RoadTileEnv where
  "bare_road =
     \<lparr>ClearTile_Station = (\<lambda>t. CommandCost_error STR_UNDEFINED),
      AxisToDiagDir = (\<lambda>a. if a = AXIS_X then DIAGDIR_NE else DIAGDIR_SE),
      ReverseDiagDir = (\<lambda>d. case d of DIAGDIR_NE \<Rightarrow> DIAGDIR_SW | DIAGDIR_SE \<Rightarrow> DIAGDIR_NW
                               | DIAGDIR_SW \<Rightarrow> DIAGDIR_NE | DIAGDIR_NW \<Rightarrow> DIAGDIR_SE),
      IsAnyRoadStop = (\<lambda>t. False),
      GetStationType = (\<lambda>t. 0),
      IsDriveThroughStopTile = (\<lambda>t. False),
      GetDriveThroughStopAxis = (\<lambda>t. AXIS_X),
      IsNormalRoadTile = (\<lambda>t. False),
      GetAllRoadBits = (\<lambda>t. {}),
      GetRoadBits = (\<lambda>t r. {}),
      ROAD_X = {1, 3},
      ROAD_Y = {0, 2},
      INVALID_ROADTYPE = 255,
      GetRoadType = (\<lambda>t r. 255),
      GetRoadOwner = (\<lambda>t r. 16),
      OWNER_TOWN = 15,
      OWNER_NONE = 16,
      Company_IsValidID = (\<lambda>c. c < 15),
      CheckOwnership_owner = (\<lambda>c. CommandCost_ok),
      road_stop_on_town_road = True,
      road_stop_on_competitor_road = True,
      RoadTypeIsRoad = (\<lambda>r. True),
      RoadTypeIsTram = (\<lambda>r. False),
      HasPowerOnRoad = (\<lambda>a b. True),
      HasDisallowedRoadDirections = (\<lambda>t. False),
      RoadBuildCost = (\<lambda>r. 10)\<rparr>"


text \<open>
  Two rail stations of company 1, stations 5 and 6, on tiles 0 and 2 of a strip of map;
  the area to build on is tile 1, and expanding an area adds one tile at each end.
\<close>

definition strip_map :: Map where
  "strip_map =
     \<lparr>GetTileType = (\<lambda>t. if t = 0 \<or> t = 2 then MP_STATION else MP_CLEAR),
      GetStationIndex = (\<lambda>t. if t = 0 then 5 else 6),
      GetIndustryType = (\<lambda>t. 0)\<rparr>"

definition strip_pool :: StationPool where
  "strip_pool t = (if t = 5 \<or> t = 6 then Some (strip_station t) else None)"

definition strip_ops :: TileAreaOps where
  "strip_ops =
     \<lparr>Expand = (\<lambda>ta rad. ta\<lparr>tile := tile ta - nat rad, w := w ta + 2 * nat rad\<rparr>),
      TileIterator = (\<lambda>ta. [tile ta ..< tile ta + w ta])\<rparr>"

definition any_station :: "Station \<Rightarrow> bool" where
  \<comment> \<open>the filter of \<^verbatim>\<open>FindJoiningStation\<close>\<close>
  "any_station s = True"

section \<open>MakeStationAreaSmaller\<close>

text \<open>
  \<^verbatim>\<open>TileDiffXY\<close> (map\_func.h) is the parameter \<open>D\<close>; \<open>func\<close> tells whether a tile
  belongs to the station. Each of the four loops of the source looks along one side for
  a tile of the station and shrinks the area by that side when it reaches the end of the
  side without one; here a side is looked through with a bounded quantifier.
\<close>

text \<open>
  \<^verbatim>\<open>TileArea::Clear\<close> (tilearea\_type.h is not among the sources) makes the area the
  empty one at the invalid tile, which \<^verbatim>\<open>RemoveFromRailBaseStation\<close> tests for with
  \<^verbatim>\<open>st->train_station.tile == INVALID_TILE\<close>.
\<close>

definition INVALID_TILE :: TileIndex where
  "INVALID_TILE = 4294967295"

definition TileArea_Clear :: "TileArea \<Rightarrow> TileArea" where
  "TileArea_Clear ta = ta\<lparr>tile := INVALID_TILE, w := 0, h := 0\<rparr>"

function MakeStationAreaSmaller ::
  "(nat \<Rightarrow> nat \<Rightarrow> nat) \<Rightarrow> (TileIndex \<Rightarrow> bool) \<Rightarrow> TileArea \<Rightarrow> TileArea" where
  "MakeStationAreaSmaller D func ta =
     (if w ta \<noteq> 0 \<and> h ta \<noteq> 0 then
        (if \<not> (\<exists>i \<in> {0..<h ta}. func (tile ta + D 0 i))
         then MakeStationAreaSmaller D func (ta\<lparr>tile := tile ta + D 1 0, w := w ta - 1\<rparr>)
         else if \<not> (\<exists>i \<in> {0..<h ta}. func (tile ta + D (w ta - 1) i))
         then MakeStationAreaSmaller D func (ta\<lparr>w := w ta - 1\<rparr>)
         else if \<not> (\<exists>i \<in> {0..<w ta}. func (tile ta + D i 0))
         then MakeStationAreaSmaller D func (ta\<lparr>tile := tile ta + D 0 1, h := h ta - 1\<rparr>)
         else if \<not> (\<exists>i \<in> {0..<w ta}. func (tile ta + D i (h ta - 1)))
         then MakeStationAreaSmaller D func (ta\<lparr>h := h ta - 1\<rparr>)
         else ta)
      else TileArea_Clear ta)"
  by pat_completeness auto
termination
  by (relation "measure (\<lambda>(D, func, ta). w ta + h ta)") auto

declare MakeStationAreaSmaller.simps [simp del]

text \<open>
  The tiles of an area, and what the claim asks of \<^verbatim>\<open>TileDiffXY\<close>: moving on by one
  column or one row is the same from every offset.
\<close>

definition area_tiles :: "(nat \<Rightarrow> nat \<Rightarrow> nat) \<Rightarrow> TileArea \<Rightarrow> TileIndex set" where
  "area_tiles D ta = {tile ta + D i j | i j. i < w ta \<and> j < h ta}"

definition TileDiffXY_linear :: "(nat \<Rightarrow> nat \<Rightarrow> nat) \<Rightarrow> bool" where
  "TileDiffXY_linear D \<longleftrightarrow>
     (\<forall>i j. D (Suc i) j = D 1 0 + D i j) \<and> (\<forall>i j. D i (Suc j) = D 0 1 + D i j)"

definition shrunk_ok :: "(nat \<Rightarrow> nat \<Rightarrow> nat) \<Rightarrow> (TileIndex \<Rightarrow> bool) \<Rightarrow> TileArea \<Rightarrow> TileArea \<Rightarrow> bool" where
  \<comment> \<open>\<open>r\<close> is what is left of \<open>ta\<close>: no station tile lost, every side of \<open>r\<close> in use\<close>
  "shrunk_ok D func ta r \<longleftrightarrow>
     (\<forall>t \<in> area_tiles D ta. func t \<longrightarrow> t \<in> area_tiles D r) \<and>
     area_tiles D r \<subseteq> area_tiles D ta \<and>
     (w r \<noteq> 0 \<longrightarrow> h r \<noteq> 0 \<and>
        (\<exists>j < h r. func (tile r + D 0 j)) \<and> (\<exists>j < h r. func (tile r + D (w r - 1) j)) \<and>
        (\<exists>i < w r. func (tile r + D i 0)) \<and> (\<exists>i < w r. func (tile r + D i (h r - 1)))) \<and>
     (w r = 0 \<longrightarrow> h r = 0 \<and> tile r = INVALID_TILE)"

definition TileDiffXY_256 :: "nat \<Rightarrow> nat \<Rightarrow> nat" where
  \<comment> \<open>the offsets of a map that is 256 tiles wide\<close>
  "TileDiffXY_256 x y = y * 256 + x"

section \<open>GenerateStationName: industry names\<close>

text \<open>
  The industry specifications, the number of industry types, the invalid industry type
  and the test \<^verbatim>\<open>IsInsideMM(str, STR_SV_STNAME, STR_SV_STNAME_FALLBACK)\<close> are parameters.
  The two bit sets of \<^verbatim>\<open>StationNameInformation\<close> are sets.
\<close>

record IndustrySpec =
  station_name :: StringID
  enabled :: bool

record NameEnv =
  GetIndustrySpec :: "IndustryType \<Rightarrow> IndustrySpec"
  NUM_INDUSTRYTYPES :: nat
  IT_INVALID :: IndustryType
  IsDefaultStationName :: "StringID \<Rightarrow> bool"

record StationNameInformation =
  used_names :: "StringID set"
  indtypes :: "IndustryType set"

definition SetUsed :: "StationNameInformation \<Rightarrow> StringID \<Rightarrow> StationNameInformation" where
  "SetUsed sni str = sni\<lparr>used_names := insert str (used_names sni)\<rparr>"

text \<open>The loop over all stations: the names and industry types taken in the same town.\<close>

fun GenerateStationName_stations ::
  "NameEnv \<Rightarrow> Station \<Rightarrow> Station list \<Rightarrow> StationNameInformation \<Rightarrow> StationNameInformation" where
  "GenerateStationName_stations env st [] sni = sni"
| "GenerateStationName_stations env st (s # ss) sni =
     (if index s \<noteq> index st \<and> town s = town st then
        (if indtype s \<noteq> IT_INVALID env then
           (let sni1 = sni\<lparr>indtypes := insert (indtype s) (indtypes sni)\<rparr>;
                name = station_name (GetIndustrySpec env (indtype s))
            in GenerateStationName_stations env st ss
                 (if name \<noteq> STR_UNDEFINED
                  then sni1\<lparr>indtypes := indtypes sni1 \<union>
                         set (filter (\<lambda>it. enabled (GetIndustrySpec env it) \<and>
                                            station_name (GetIndustrySpec env it) = name)
                                [0..<NUM_INDUSTRYTYPES env])\<rparr>
                  else sni1))
         else if IsDefaultStationName env (string_id s) then
           GenerateStationName_stations env st ss
             (SetUsed sni (if string_id s = STR_SV_STNAME_FOREST then STR_SV_STNAME_WOODS
                           else string_id s))
         else GenerateStationName_stations env st ss sni)
      else GenerateStationName_stations env st ss sni)"

text \<open>
  The loop over the spiral of tiles. The second component is the industry type that the
  station takes when the function returns \<^verbatim>\<open>STR_SV_STNAME_FALLBACK\<close> from inside the
  loop, \<open>None\<close> when the loop ends or is left by \<^verbatim>\<open>break\<close>.
\<close>

fun GenerateStationName_spiral ::
  "NameEnv \<Rightarrow> Map \<Rightarrow> TileIndex list \<Rightarrow> StationNameInformation
     \<Rightarrow> StationNameInformation \<times> IndustryType option" where
  "GenerateStationName_spiral env m [] sni = (sni, None)"
| "GenerateStationName_spiral env m (indtile # tiles) sni =
     (if \<not> IsTileType m indtile MP_INDUSTRY then GenerateStationName_spiral env m tiles sni
      else
        let indtype' = GetIndustryType m indtile;
            indsp = GetIndustrySpec env indtype'
        in if station_name indsp = STR_UNDEFINED then GenerateStationName_spiral env m tiles sni
           else
             let sni' = SetUsed (SetUsed sni STR_SV_STNAME_OILFIELD) STR_SV_STNAME_MINES
             in if indtype' \<in> indtypes sni' then GenerateStationName_spiral env m tiles sni'
                else if station_name indsp \<noteq> STR_NULL then (sni', Some indtype')
                else (sni', None))"

text \<open>
  Both loops. \<open>Inl\<close> is the return from the spiral: the station with its industry type
  set and \<^verbatim>\<open>STR_SV_STNAME_FALLBACK\<close>. \<open>Inr\<close> is the name information with which the
  function goes on to the default names, which are not modelled.
\<close>

definition GenerateStationName_industry ::
  "NameEnv \<Rightarrow> Map \<Rightarrow> Station list \<Rightarrow> TileIndex list \<Rightarrow> Station
     \<Rightarrow> (Station \<times> StringID) + StationNameInformation" where
  "GenerateStationName_industry env m stations spiral st =
     (let sni = GenerateStationName_stations env st stations \<lparr>used_names = {}, indtypes = {}\<rparr>
      in case GenerateStationName_spiral env m spiral sni of
           (sni', Some indtype') \<Rightarrow> Inl (st\<lparr>indtype := indtype'\<rparr>, STR_SV_STNAME_FALLBACK)
         | (sni', None) \<Rightarrow> Inr sni')"

definition names_station :: "NameEnv \<Rightarrow> Map \<Rightarrow> TileIndex \<Rightarrow> bool" where
  \<comment> \<open>an industry tile whose industry type has a station name\<close>
  "names_station env m indtile \<longleftrightarrow>
     IsTileType m indtile MP_INDUSTRY \<and>
     station_name (GetIndustrySpec env (GetIndustryType m indtile)) \<noteq> STR_UNDEFINED"

text \<open>One industry tile of type 3 on tile 7, whose industry names stations.\<close>

definition mine_map :: Map where
  "mine_map =
     \<lparr>GetTileType = (\<lambda>t. if t = 7 then MP_INDUSTRY else MP_CLEAR),
      GetStationIndex = (\<lambda>t. StationID_Invalid),
      GetIndustryType = (\<lambda>t. 3)\<rparr>"

definition mine_env :: NameEnv where
  "mine_env =
     \<lparr>GetIndustrySpec = (\<lambda>it. \<lparr>station_name = (if it = 3 then STR_OTHER 42 else STR_UNDEFINED),
                               enabled = True\<rparr>),
      NUM_INDUSTRYTYPES = 8,
      IT_INVALID = 255,
      IsDefaultStationName = (\<lambda>str. str = STR_SV_STNAME_WOODS \<or> str = STR_SV_STNAME_FOREST \<or>
                                     str = STR_SV_STNAME_OILFIELD \<or> str = STR_SV_STNAME_MINES)\<rparr>"

section \<open>RemoveFromRailBaseStation\<close>

text \<open>
  The state of the map, the stations and the companies is a value of the type \<open>'w\<close>.
  What the function reads from it and how the block under \<^verbatim>\<open>DoCommandFlag::Execute\<close>
  and the loop over the affected stations change it are parameters.
  \<open>CheckOwnership w st\<close> is \<^verbatim>\<open>CheckOwnership(st->owner)\<close>.
\<close>

record 'w RailEnv =
  HasStationTileRail :: "'w \<Rightarrow> TileIndex \<Rightarrow> bool"
  EnsureNoVehicleOnGround_in :: "'w \<Rightarrow> TileIndex \<Rightarrow> CommandCost"
  GetByTile :: "'w \<Rightarrow> TileIndex \<Rightarrow> StationID option"
  CheckOwnership :: "'w \<Rightarrow> StationID \<Rightarrow> CommandCost"
  current_company_is_OWNER_WATER :: bool
  IsStationTileBlocked :: "'w \<Rightarrow> TileIndex \<Rightarrow> bool"
  price_PR_CLEAR_RAIL :: int
  remove_station_tile :: "bool \<Rightarrow> TileIndex \<Rightarrow> StationID \<Rightarrow> 'w \<Rightarrow> 'w"
  shrink_station :: "StationID \<Rightarrow> 'w \<Rightarrow> 'w"

record 'w RemoveState =
  quantity :: int
  total_cost :: CommandCost
  error :: CommandCost
  world :: 'w
  affected_stations :: "StationID list"

text \<open>\<^verbatim>\<open>include(vec, item)\<close> adds an item to a vector that does not hold it yet.\<close>

definition include_item :: "StationID list \<Rightarrow> StationID \<Rightarrow> StationID list" where
  "include_item vec item = (if item \<in> set vec then vec else vec @ [item])"

fun RemoveFromRailBaseStation_loop ::
  "'w RailEnv \<Rightarrow> bool \<Rightarrow> bool \<Rightarrow> TileIndex list \<Rightarrow> 'w RemoveState \<Rightarrow> 'w RemoveState" where
  "RemoveFromRailBaseStation_loop env execute keep_rail [] s = s"
| "RemoveFromRailBaseStation_loop env execute keep_rail (cur # tiles) s =
     (if \<not> HasStationTileRail env (world s) cur
      then RemoveFromRailBaseStation_loop env execute keep_rail tiles s
      else
        let s1 = s\<lparr>error := AddCost_cc (error s) (EnsureNoVehicleOnGround_in env (world s) cur)\<rparr>
        in if Failed (error s1) then RemoveFromRailBaseStation_loop env execute keep_rail tiles s1
           else case GetByTile env (world s1) cur of
                  None \<Rightarrow> RemoveFromRailBaseStation_loop env execute keep_rail tiles s1
                | Some st \<Rightarrow>
                    let s2 = (if \<not> current_company_is_OWNER_WATER env
                              then s1\<lparr>error := AddCost_cc (error s1)
                                                  (CheckOwnership env (world s1) st)\<rparr>
                              else s1)
                    in if \<not> current_company_is_OWNER_WATER env \<and> Failed (error s2)
                       then RemoveFromRailBaseStation_loop env execute keep_rail tiles s2
                       else
                         let s3 = s2\<lparr>quantity := quantity s2 + 1\<rparr>;
                             s4 = (if keep_rail \<or> IsStationTileBlocked env (world s3) cur
                                   then s3\<lparr>total_cost := AddCost (total_cost s3)
                                                            (- price_PR_CLEAR_RAIL env)\<rparr>
                                   else s3);
                             s5 = (if execute
                                   then s4\<lparr>world := remove_station_tile env keep_rail cur st
                                                      (world s4),
                                           affected_stations := include_item (affected_stations s4) st\<rparr>
                                   else s4)
                         in RemoveFromRailBaseStation_loop env execute keep_rail tiles s5)"

text \<open>The result, the state of the world and \<^verbatim>\<open>affected_stations\<close> afterwards.\<close>

definition RemoveFromRailBaseStation ::
  "'w RailEnv \<Rightarrow> TileIndex list \<Rightarrow> StationID list \<Rightarrow> bool \<Rightarrow> int \<Rightarrow> bool \<Rightarrow> 'w
     \<Rightarrow> CommandCost \<times> 'w \<times> StationID list" where
  "RemoveFromRailBaseStation env ta affected execute removal_cost keep_rail wld =
     (let s = RemoveFromRailBaseStation_loop env execute keep_rail ta
                \<lparr>quantity = 0, total_cost = CommandCost_ok, error = CommandCost_ok,
                 world = wld, affected_stations = affected\<rparr>
      in if quantity s = 0
         then (if Failed (error s) then error s
               else CommandCost_error STR_ERROR_THERE_IS_NO_STATION,
               world s, affected_stations s)
         else (AddCost (total_cost s) (quantity s * removal_cost),
               fold (shrink_station env) (affected_stations s) (world s),
               affected_stations s))"

text \<open>
  A tile passes the checks of the loop when it is a rail station tile without a vehicle
  on it whose station exists and may be changed by the current company. The error of a
  tile is the error that its checks give when no error has been seen before it.
\<close>

definition tile_passes :: "'w RailEnv \<Rightarrow> 'w \<Rightarrow> TileIndex \<Rightarrow> bool" where
  "tile_passes env wld cur \<longleftrightarrow>
     HasStationTileRail env wld cur \<and>
     \<not> Failed (EnsureNoVehicleOnGround_in env wld cur) \<and>
     (case GetByTile env wld cur of
        None \<Rightarrow> False
      | Some st \<Rightarrow> current_company_is_OWNER_WATER env \<or> \<not> Failed (CheckOwnership env wld st))"

definition tile_error :: "'w RailEnv \<Rightarrow> 'w \<Rightarrow> TileIndex \<Rightarrow> StringID option" where
  "tile_error env wld cur =
     (if \<not> HasStationTileRail env wld cur then None
      else if Failed (EnsureNoVehicleOnGround_in env wld cur)
      then Some (message (EnsureNoVehicleOnGround_in env wld cur))
      else case GetByTile env wld cur of
             None \<Rightarrow> None
           | Some st \<Rightarrow>
               if \<not> current_company_is_OWNER_WATER env \<and> Failed (CheckOwnership env wld st)
               then Some (message (CheckOwnership env wld st)) else None)"

fun first_tile_error :: "'w RailEnv \<Rightarrow> 'w \<Rightarrow> TileIndex list \<Rightarrow> StringID option" where
  "first_tile_error env wld [] = None"
| "first_tile_error env wld (cur # tiles) =
     (case tile_error env wld cur of
        Some msg \<Rightarrow> Some msg
      | None \<Rightarrow> first_tile_error env wld tiles)"

text \<open>
  What the loop leaves as it was when it removes no tile, and the error it holds then.
\<close>

definition loop_kept :: "'w RailEnv \<Rightarrow> TileIndex list \<Rightarrow> 'w RemoveState \<Rightarrow> 'w RemoveState \<Rightarrow> bool" where
  "loop_kept env tiles s s' \<longleftrightarrow>
     quantity s' = quantity s \<and> world s' = world s \<and>
     affected_stations s' = affected_stations s \<and> total_cost s' = total_cost s \<and>
     (if Failed (error s) then Failed (error s') \<and> message (error s') = message (error s)
      else case first_tile_error env (world s) tiles of
             Some msg \<Rightarrow> Failed (error s') \<and> message (error s') = msg
           | None \<Rightarrow> \<not> Failed (error s'))"

text \<open>
  A world that is a set of rail station tiles of station 1, all owned by another
  company: every ownership check fails.
\<close>

definition foreign_env :: "TileIndex set RailEnv" where
  "foreign_env =
     \<lparr>HasStationTileRail = (\<lambda>wld t. t \<in> wld),
      EnsureNoVehicleOnGround_in = (\<lambda>wld t. CommandCost_ok),
      GetByTile = (\<lambda>wld t. Some 1),
      CheckOwnership = (\<lambda>wld st. CommandCost_error (STR_OTHER 7)),
      current_company_is_OWNER_WATER = False,
      IsStationTileBlocked = (\<lambda>wld t. False),
      price_PR_CLEAR_RAIL = 10,
      remove_station_tile = (\<lambda>keep t st wld. wld - {t}),
      shrink_station = (\<lambda>st wld. wld)\<rparr>"



section \<open>Facts about command results\<close>

lemma Failed_simps:
  "Failed (CommandCost_error msg)" "\<not> Failed CommandCost_ok"
  "Failed (AddCost c m) = Failed c"
  by (simp_all add: Failed_def CommandCost_error_def CommandCost_ok_def AddCost_def)


section \<open>Properties of the flow shares\<close>

lemma sum_share_sizes:
  "m \<noteq> [] \<Longrightarrow> sum_list (share_sizes p m) = fst (last m) - p"
proof (induction m arbitrary: p)
  case Nil
  then show ?case by simp
next
  case (Cons e m)
  obtain k v where e: "e = (k, v)" by (cases e)
  show ?case
  proof (cases "m = []")
    case True
    then show ?thesis by (simp add: e)
  next
    case False
    then show ?thesis using Cons.IH [OF False, of k] by (simp add: e)
  qed
qed

lemma set_map_assign: "set (map_assign k v m) \<subseteq> insert (k, v) (set m)"
  by (induction m) (auto split: if_splits)

lemma valid_map_assign: "valid_map m \<Longrightarrow> valid_map (map_assign k v m)"
proof (induction m)
  case Nil
  then show ?case by (simp add: valid_map_def)
next
  case (Cons e m)
  obtain k' v' where e: "e = (k', v')" by (cases e)
  from Cons.prems have tl: "valid_map m" and hd: "\<forall>x \<in> set m. k' < fst x"
    by (auto simp: valid_map_def e)
  show ?case
  proof (cases "k < k'")
    case True
    with Cons.prems show ?thesis by (auto simp: valid_map_def e)
  next
    case False
    show ?thesis
    proof (cases "k = k'")
      case True
      with Cons.prems show ?thesis by (auto simp: valid_map_def e)
    next
      case ne: False
      with False have lt: "k' < k" by simp
      have "valid_map (map_assign k v m)" by (rule Cons.IH [OF tl])
      moreover have "\<forall>x \<in> set (map_assign k v m). k' < fst x"
        using hd lt set_map_assign [of k v m] by auto
      ultimately show ?thesis using False ne by (auto simp: valid_map_def e)
    qed
  qed
qed

lemma values_map_assign: "snd ` set (map_assign k v m) \<subseteq> insert v (snd ` set m)"
  using set_map_assign [of k v m] by force

lemma ChangeShare_loop_valid:
  "valid_map (new_shares s) \<Longrightarrow> valid_map (new_shares (ChangeShare_loop st m s))"
  by (induction st m s rule: ChangeShare_loop.induct) (auto simp: Let_def valid_map_assign)

lemma sint_INT_MIN: "sint INT_MIN < 0"
  by (simp add: INT_MIN_def)

lemma ChangeShare_loop_erase:
  "cs_flow s = INT_MIN \<Longrightarrow> st \<notin> snd ` set (new_shares s) \<Longrightarrow>
   cs_flow (ChangeShare_loop st m s) = INT_MIN \<and> st \<notin> snd ` set (new_shares (ChangeShare_loop st m s))"
proof (induction st m s rule: ChangeShare_loop.induct)
  case (1 st s)
  then show ?case by simp
next
  case (2 st k v m s)
  show ?case
  proof (cases "v = st")
    case True
    with "2.prems" sint_INT_MIN show ?thesis
      using "2.IH"(1) by (simp add: Let_def)
  next
    case False
    have "snd ` set (map_assign (k + added_shares s - removed_shares s) v (new_shares s))
            \<subseteq> insert v (snd ` set (new_shares s))"
      by (rule values_map_assign)
    with False "2.prems" have "st \<notin> snd ` set (map_assign (k + added_shares s - removed_shares s) v (new_shares s))"
      by auto
    with False "2.prems" show ?thesis
      using "2.IH"(2) by (simp add: Let_def)
  qed
qed

lemma ReleaseShare_Some: "shares fs \<noteq> [] \<Longrightarrow> \<exists>fs'. ReleaseShare st fs = Some fs'"
  by (auto simp: ReleaseShare_def split: sum.splits prod.splits)

lemma ChangeShare_valid:
  assumes "shares fs \<noteq> []"
  shows "\<exists>fs'. ChangeShare st flow fs = Some fs' \<and> valid_map (shares fs')"
proof -
  let ?s = "ChangeShare_loop st (shares fs)
                  \<lparr>cs_flow = flow, removed_shares = 0, added_shares = 0, last_share = 0,
                   new_shares = [], cs_unrestricted = unrestricted fs\<rparr>"
  have v: "valid_map (new_shares ?s)"
    by (rule ChangeShare_loop_valid) (simp add: valid_map_def)
  then have v': "valid_map (map_assign (last_share ?s + cs_flow ?s) st (new_shares ?s))"
    by (rule valid_map_assign)
  obtain fs0 where r: "ReleaseShare st (fs\<lparr>unrestricted := cs_unrestricted ?s\<rparr>) = Some fs0"
    using ReleaseShare_Some [of "fs\<lparr>unrestricted := cs_unrestricted ?s\<rparr>" st] assms by auto
  show ?thesis
    using assms v v' r by (simp add: ChangeShare_def Let_def)
qed

lemma ChangeShare_erase:
  assumes "shares fs \<noteq> []"
  shows "\<exists>fs'. ChangeShare st INT_MIN fs = Some fs' \<and> st \<notin> snd ` set (shares fs')"
proof -
  let ?s = "ChangeShare_loop st (shares fs)
                  \<lparr>cs_flow = INT_MIN, removed_shares = 0, added_shares = 0, last_share = 0,
                   new_shares = [], cs_unrestricted = unrestricted fs\<rparr>"
  have "cs_flow ?s = INT_MIN \<and> st \<notin> snd ` set (new_shares ?s)"
    by (rule ChangeShare_loop_erase) simp_all
  then show ?thesis
    using assms sint_INT_MIN by (simp add: ChangeShare_def Let_def)
qed

lemma valid_map_last:
  "valid_map m \<Longrightarrow> e \<in> set m \<Longrightarrow> fst e \<le> fst (last m)"
proof (induction m)
  case Nil
  then show ?case by simp
next
  case (Cons a m)
  show ?case
  proof (cases "m = []")
    case True
    with Cons.prems show ?thesis by simp
  next
    case False
    from Cons.prems(1) have tl: "valid_map m" and hd: "\<forall>x \<in> set m. fst a < fst x"
      by (auto simp: valid_map_def)
    from False have l: "last m \<in> set m" by simp
    show ?thesis
    proof (cases "e = a")
      case True
      with hd l False show ?thesis by (auto simp: less_imp_le)
    next
      case ne: False
      with Cons.prems(2) have "e \<in> set m" by simp
      with Cons.IH tl False show ?thesis by simp
    qed
  qed
qed

lemma GetShare_loop_sizes:
  "distinct (map snd m) \<Longrightarrow> map (\<lambda>e. GetShare_loop (snd e) p m) m = share_sizes p m"
proof (induction m arbitrary: p)
  case Nil
  then show ?case by simp
next
  case (Cons a m)
  obtain k v where a: "a = (k, v)" by (cases a)
  from Cons.prems a have d: "distinct (map snd m)" and nv: "\<forall>e \<in> set m. snd e \<noteq> v"
    by auto
  have "map (\<lambda>e. GetShare_loop (snd e) p ((k, v) # m)) m = map (\<lambda>e. GetShare_loop (snd e) k m) m"
    using nv by (intro map_cong) auto
  with Cons.IH [OF d, of k] show ?case by (simp add: a)
qed

text \<open>
  Claim C2. In every \<^verbatim>\<open>FlowStat\<close> the sizes of the shares, each boundary minus its
  predecessor, add up to the last boundary, which is the largest one; the sizes are
  what \<^verbatim>\<open>GetShare\<close> returns when every destination has one share. \<^verbatim>\<open>ChangeShare\<close>
  returns a map for which the same holds (it may be empty), and after
  \<^verbatim>\<open>ChangeShare(X, INT_MIN)\<close> no share has \<open>X\<close> as its destination.
\<close>

theorem share_conservation:
  assumes "valid_map (shares fs)" and "shares fs \<noteq> []"
  shows "sum_list (share_sizes 0 (shares fs)) = fst (last (shares fs))
       \<and> (\<forall>e \<in> set (shares fs). fst e \<le> fst (last (shares fs)))
       \<and> (distinct (map snd (shares fs)) \<longrightarrow>
             map (\<lambda>e. GetShare fs (snd e)) (shares fs) = share_sizes 0 (shares fs))
       \<and> (\<exists>fs'. ChangeShare st flow fs = Some fs' \<and> valid_map (shares fs')
             \<and> (shares fs' \<noteq> [] \<longrightarrow> sum_list (share_sizes 0 (shares fs')) = fst (last (shares fs'))
                   \<and> (\<forall>e \<in> set (shares fs'). fst e \<le> fst (last (shares fs')))))
       \<and> (\<exists>fs'. ChangeShare X INT_MIN fs = Some fs' \<and> X \<notin> snd ` set (shares fs'))"
proof -
  have a: "sum_list (share_sizes 0 (shares fs)) = fst (last (shares fs))"
    using sum_share_sizes [OF assms(2), of 0] by simp
  have b: "\<forall>e \<in> set (shares fs). fst e \<le> fst (last (shares fs))"
    using valid_map_last [OF assms(1)] by blast
  have g: "distinct (map snd (shares fs)) \<longrightarrow>
             map (\<lambda>e. GetShare fs (snd e)) (shares fs) = share_sizes 0 (shares fs)"
    using GetShare_loop_sizes [of "shares fs" 0] by (simp add: GetShare_def)
  obtain fs' where c: "ChangeShare st flow fs = Some fs'" and v: "valid_map (shares fs')"
    using ChangeShare_valid [OF assms(2)] by blast
  have d: "shares fs' \<noteq> [] \<longrightarrow> sum_list (share_sizes 0 (shares fs')) = fst (last (shares fs'))
                   \<and> (\<forall>e \<in> set (shares fs'). fst e \<le> fst (last (shares fs')))"
    using sum_share_sizes [of "shares fs'" 0] valid_map_last [OF v] by auto
  from a b g c v d ChangeShare_erase [OF assms(2), of X] show ?thesis by blast
qed

theorem share_conservation_witness:
  "valid_map (shares \<lparr>shares = [(10, 1), (30, 2)], unrestricted = 10\<rparr>) \<and>
   shares \<lparr>shares = [(10, 1), (30, 2)], unrestricted = 10\<rparr> \<noteq> [] \<and>
   sum_list (share_sizes 0 (shares \<lparr>shares = [(10, 1), (30, 2)], unrestricted = 10\<rparr>)) = 30 \<and>
   (\<exists>fs'. ChangeShare 1 INT_MIN \<lparr>shares = [(10, 1), (30, 2)], unrestricted = 10\<rparr> = Some fs' \<and>
          1 \<notin> snd ` set (shares fs'))"
  using share_conservation [of "\<lparr>shares = [(10, 1), (30, 2)], unrestricted = 10\<rparr>" 2 5 1]
  by (simp add: valid_map_def)

text \<open>
  Claim C3. With destination 1 as the only unrestricted destination,
  \<^verbatim>\<open>RestrictShare(1)\<close> followed by \<^verbatim>\<open>ReleaseShare(1)\<close> does not give back the original
  \<^verbatim>\<open>FlowStat\<close>. \<^verbatim>\<open>RestrictShare\<close> re-inserts the share at \<open>last_share + flow\<close>, twice
  its size beyond the shifted predecessor, and \<^verbatim>\<open>ReleaseShare\<close> moves that doubled
  share to the front. When the share is the only one in the map, \<^verbatim>\<open>ReleaseShare\<close>
  finds it at the first position, never computes its size and returns without releasing
  it.
\<close>

theorem RestrictShare_ReleaseShare_round_trip:
  "RestrictShare 1 \<lparr>shares = [(10, 1), (30, 2)], unrestricted = 10\<rparr>
     = Some \<lparr>shares = [(20, 2), (40, 1)], unrestricted = 0\<rparr> \<and>
   ReleaseShare 1 \<lparr>shares = [(20, 2), (40, 1)], unrestricted = 0\<rparr>
     = Some \<lparr>shares = [(20, 1), (40, 2)], unrestricted = 20\<rparr> \<and>
   RestrictShare 1 \<lparr>shares = [(10, 1)], unrestricted = 10\<rparr>
     = Some \<lparr>shares = [(20, 1)], unrestricted = 0\<rparr> \<and>
   ReleaseShare 1 \<lparr>shares = [(20, 1)], unrestricted = 0\<rparr>
     = Some \<lparr>shares = [(20, 1)], unrestricted = 0\<rparr>"
  by (simp add: RestrictShare_def ReleaseShare_def)

subsection \<open>Word arithmetic of the draws\<close>

lemma unat_add_small:
  fixes x y u :: u32
  assumes "unat x + unat y \<le> unat u"
  shows "unat (x + y) = unat x + unat y"
proof -
  have "unat u < 2 ^ LENGTH(32)" by (rule unsigned_less)
  with assms have "unat x + unat y < 2 ^ LENGTH(32)" by linarith
  then show ?thesis by (simp only: unat_add_lem)
qed

lemma w_full_interval:
  fixes b e u r :: u32
  assumes "b \<le> r" "r < e" "e \<le> u"
  shows "(u \<le> e - b) = (b = 0 \<and> e = u)"
proof -
  have n: "unat b \<le> unat r" "unat r < unat e" "unat e \<le> unat u"
    using assms by (simp_all only: word_le_nat_alt word_less_nat_alt)
  have be: "b \<le> e" using n by (simp only: word_le_nat_alt)
  have s: "unat (e - b) = unat e - unat b" by (rule unat_sub [OF be])
  have l: "(u \<le> e - b) = (unat u \<le> unat e - unat b)"
    by (simp only: word_le_nat_alt s)
  have r1: "(b = 0) = (unat b = 0)" by (simp only: unat_0_iff)
  have r2: "(e = u) = (unat e = unat u)" by (rule word_unat_eq_iff)
  show ?thesis unfolding l r1 r2 using n by arith
qed

lemma w_second_draw:
  fixes b e u r :: u32
  assumes "b < e" "e \<le> u" "\<not> u \<le> e - b" "r < u - (e - b)"
  shows "(r < b \<longrightarrow> r < u) \<and> (\<not> r < b \<longrightarrow> r + (e - b) < u \<and> e \<le> r + (e - b))"
proof -
  have n1: "unat b < unat e" "unat e \<le> unat u"
    using assms(1,2) by (simp_all only: word_le_nat_alt word_less_nat_alt)
  have be: "b \<le> e" using n1 by (simp only: word_le_nat_alt)
  have s: "unat (e - b) = unat e - unat b" by (rule unat_sub [OF be])
  have iu: "e - b \<le> u" using n1 by (simp only: word_le_nat_alt s)
  have s2: "unat (u - (e - b)) = unat u - (unat e - unat b)"
    using unat_sub [OF iu] by (simp only: s)
  have n2: "unat r < unat u - (unat e - unat b)"
    using assms(4) by (simp only: word_less_nat_alt s2)
  have a: "unat (r + (e - b)) = unat r + (unat e - unat b)"
    using unat_add_small [of r "e - b" u] n1 n2 unfolding s by linarith
  show ?thesis
    unfolding word_le_nat_alt word_less_nat_alt a using n1 n2 by arith
qed

lemma w_new_max:
  fixes i1 i2 u r :: u32
  assumes "\<not> u \<le> i1" "\<not> u - i1 \<le> i2" "r < u - i1 - i2"
  shows "unat r + unat i1 + unat i2 < unat u"
proof -
  have n1: "unat i1 < unat u" using assms(1) unfolding word_le_nat_alt by linarith
  have iu: "i1 \<le> u" unfolding word_le_nat_alt using n1 by linarith
  have s: "unat (u - i1) = unat u - unat i1" by (rule unat_sub [OF iu])
  have n2: "unat i2 < unat u - unat i1" using assms(2) unfolding word_le_nat_alt s by linarith
  have i2u: "i2 \<le> u - i1" unfolding word_le_nat_alt s using n2 by linarith
  have s2: "unat (u - i1 - i2) = unat u - unat i1 - unat i2"
    using unat_sub [OF i2u] by (simp only: s)
  have "unat r < unat u - unat i1 - unat i2"
    using assms(3) by (simp only: word_less_nat_alt s2)
  then show ?thesis by arith
qed

lemma w_third_draw:
  fixes b e b2 e2 u r :: u32
  assumes "b < e" "e \<le> b2" "b2 < e2" "e2 \<le> u"
    "unat r + unat (e - b) + unat (e2 - b2) < unat u"
  shows "(r < b \<longrightarrow> r < u)
       \<and> (\<not> r < b \<longrightarrow> r < b2 - (e - b) \<longrightarrow> r + (e - b) < u \<and> e \<le> r + (e - b) \<and> r + (e - b) < b2)
       \<and> (\<not> r < b \<longrightarrow> \<not> r < b2 - (e - b) \<longrightarrow>
             r + (e - b) + (e2 - b2) < u \<and> e2 \<le> r + (e - b) + (e2 - b2))"
proof -
  have n1: "unat b < unat e" "unat e \<le> unat b2" "unat b2 < unat e2" "unat e2 \<le> unat u"
    using assms(1-4) by (simp_all only: word_le_nat_alt word_less_nat_alt)
  have be: "b \<le> e" and be2: "b2 \<le> e2" using n1 by (simp_all only: word_le_nat_alt)
  have s: "unat (e - b) = unat e - unat b" by (rule unat_sub [OF be])
  have t: "unat (e2 - b2) = unat e2 - unat b2" by (rule unat_sub [OF be2])
  have n3: "unat r + (unat e - unat b) + (unat e2 - unat b2) < unat u"
    using assms(5) by (simp only: s t)
  have ib: "e - b \<le> b2" unfolding word_le_nat_alt s using n1 by linarith
  have s4: "unat (b2 - (e - b)) = unat b2 - (unat e - unat b)"
    using unat_sub [OF ib] by (simp only: s)
  have a: "unat (r + (e - b)) = unat r + (unat e - unat b)"
    using unat_add_small [of r "e - b" u] n1 n3 unfolding s by linarith
  have a2: "unat (r + (e - b) + (e2 - b2)) = unat r + (unat e - unat b) + (unat e2 - unat b2)"
    using unat_add_small [of "r + (e - b)" "e2 - b2" u] n1 n3 unfolding a t by linarith
  show ?thesis
    unfolding word_le_nat_alt word_less_nat_alt a a2 s4 using n1 n3 by arith
qed

subsection \<open>Positions in a valid map\<close>

lemma valid_map_nth_less:
  assumes "valid_map m" "i < j" "j < length m"
  shows "fst (m ! i) < fst (m ! j)"
proof -
  have "map fst m ! i < map fst m ! j"
    using assms sorted_wrt_nth_less [of "(<)" "map fst m" i j] by (simp add: valid_map_def)
  with assms show ?thesis by simp
qed

lemma valid_map_nth_le_iff:
  assumes "valid_map m" "i < length m" "j < length m"
  shows "(fst (m ! i) \<le> fst (m ! j)) = (i \<le> j)"
proof
  assume le: "fst (m ! i) \<le> fst (m ! j)"
  show "i \<le> j"
  proof (rule ccontr)
    assume "\<not> i \<le> j"
    then have "j < i" by simp
    from valid_map_nth_less [OF assms(1) this assms(2)] le show False by simp
  qed
next
  assume "i \<le> j"
  then consider "i = j" | "i < j" by linarith
  then show "fst (m ! i) \<le> fst (m ! j)"
  proof cases
    case 1
    then show ?thesis by simp
  next
    case 2
    from valid_map_nth_less [OF assms(1) this assms(3)] show ?thesis by simp
  qed
qed

lemma share_begin_less:
  assumes "valid_map m" "\<forall>e \<in> set m. fst e \<noteq> 0" "i < length m"
  shows "share_begin m i < fst (m ! i)"
proof (cases "i = 0")
  case True
  from assms(2,3) have "fst (m ! i) \<noteq> 0" by simp
  then have "0 < fst (m ! i)" by (simp add: word_greater_zero_iff)
  with True show ?thesis by (simp add: share_begin_def)
next
  case False
  then have "i - 1 < i" by simp
  from valid_map_nth_less [OF assms(1) this assms(3)] False
  show ?thesis by (simp add: share_begin_def)
qed

lemma key_le_share_begin:
  assumes "valid_map m" "i < j" "j < length m"
  shows "fst (m ! i) \<le> share_begin m j"
proof -
  from assms have j: "j \<noteq> 0" "i \<le> j - 1" "j - 1 < length m" by simp_all
  from assms(2,3) have "i < length m" by simp
  with valid_map_nth_le_iff [OF assms(1) this j(3)] j(1,2)
  show ?thesis by (simp add: share_begin_def)
qed

lemma share_begin_zero:
  assumes "\<forall>e \<in> set m. fst e \<noteq> 0" "i < length m" "share_begin m i = 0"
  shows "i = 0"
proof (rule ccontr)
  assume "i \<noteq> 0"
  with assms(2) have "i - 1 < length m" by simp
  with assms(1) have "fst (m ! (i - 1)) \<noteq> 0" by simp
  with \<open>i \<noteq> 0\<close> assms(3) show False by (simp add: share_begin_def)
qed

lemma upper_bound_props:
  assumes v: "valid_map m" and j: "j < length m" and r: "r < fst (m ! j)"
  shows "upper_bound r m \<le> j" and "r < fst (m ! upper_bound r m)"
    and "share_begin m (upper_bound r m) \<le> r"
proof -
  let ?P = "\<lambda>e. fst e \<le> r"
  let ?i = "upper_bound r m"
  have pre: "\<And>k. k < ?i \<Longrightarrow> fst (m ! k) \<le> r"
  proof -
    fix k assume k: "k < ?i"
    then have k': "k < length (takeWhile ?P m)" by (simp add: upper_bound_def)
    then have "takeWhile ?P m ! k \<in> set (takeWhile ?P m)" by (rule nth_mem)
    then have "?P (takeWhile ?P m ! k)" by (rule set_takeWhileD [THEN conjunct2])
    with takeWhile_nth [OF k'] show "fst (m ! k) \<le> r" by simp
  qed
  show le: "?i \<le> j"
  proof (rule ccontr)
    assume "\<not> ?i \<le> j"
    then have "j < ?i" by simp
    from pre [OF this] r show False by simp
  qed
  with j have "length (takeWhile ?P m) < length m" by (simp add: upper_bound_def)
  from nth_length_takeWhile [OF this] show "r < fst (m ! ?i)"
    by (simp add: upper_bound_def)
  show "share_begin m ?i \<le> r"
  proof (cases "?i = 0")
    case True
    then show ?thesis by (simp add: share_begin_def)
  next
    case False
    then have "?i - 1 < ?i" by simp
    from pre [OF this] False show ?thesis by (simp add: share_begin_def)
  qed
qed


lemma FlowStat_ok_boundary:
  assumes "FlowStat_ok fs"
  obtains j where "j < length (shares fs)" "fst (shares fs ! j) = unrestricted fs"
proof -
  from assms obtain e where "e \<in> set (shares fs)" "fst e = unrestricted fs"
    by (auto simp: FlowStat_ok_def)
  then obtain j where "j < length (shares fs)" "shares fs ! j = e"
    by (auto simp: in_set_conv_nth)
  with \<open>fst e = unrestricted fs\<close> that show ?thesis by simp
qed

lemma draw_position:
  assumes ok: "FlowStat_ok fs" and x: "x < unrestricted fs"
  shows "upper_bound x (shares fs) < length (shares fs)"
    and "fst (shares fs ! upper_bound x (shares fs)) \<le> unrestricted fs"
    and "x < fst (shares fs ! upper_bound x (shares fs))"
    and "share_begin (shares fs) (upper_bound x (shares fs)) \<le> x"
proof -
  let ?m = "shares fs"
  from ok have v: "valid_map ?m" by (simp add: FlowStat_ok_def)
  from FlowStat_ok_boundary [OF ok] obtain j where j: "j < length ?m" "fst (?m ! j) = unrestricted fs"
    by blast
  from x j have r: "x < fst (?m ! j)" by simp
  note p = upper_bound_props [OF v j(1) r]
  from p(1) j(1) show l: "upper_bound x ?m < length ?m" by simp
  from valid_map_nth_le_iff [OF v l j(1)] p(1) j(2)
  show "fst (?m ! upper_bound x ?m) \<le> unrestricted fs" by simp
  from p(2) show "x < fst (?m ! upper_bound x ?m)" .
  from p(3) show "share_begin ?m (upper_bound x ?m) \<le> x" .
qed

lemma GetVia_third_position:
  assumes ok: "FlowStat_ok fs"
    and lt: "iL < iH" and len: "iH < length (shares fs)"
    and hu: "fst (shares fs ! iH) \<le> unrestricted fs"
    and bL: "bL = share_begin (shares fs) iL" and bH: "bH = share_begin (shares fs) iH"
    and dL: "dL = fst (shares fs ! iL) - bL" and dH: "dH = fst (shares fs ! iH) - bH"
    and room: "unat (rndc n) + unat dL + unat dH < unat (unrestricted fs)"
  shows "\<exists>i3. i3 < length (shares fs) \<and> i3 \<noteq> iL \<and> i3 \<noteq> iH \<and>
           fst (shares fs ! i3) \<le> unrestricted fs \<and>
           GetVia_third rndc fs n bL dL bH dH = Some (snd (shares fs ! i3))"
proof -
  let ?m = "shares fs" and ?u = "unrestricted fs" and ?r = "rndc n"
  from ok have v: "valid_map ?m" and nz: "\<forall>e \<in> set ?m. fst e \<noteq> 0"
    by (simp_all add: FlowStat_ok_def)
  from lt len have lenL: "iL < length ?m" by simp
  have a1: "bL < fst (?m ! iL)" unfolding bL by (rule share_begin_less [OF v nz lenL])
  have a2: "fst (?m ! iL) \<le> bH" unfolding bH by (rule key_le_share_begin [OF v lt len])
  have a3: "bH < fst (?m ! iH)" unfolding bH by (rule share_begin_less [OF v nz len])
  from room have room': "unat ?r + unat (fst (?m ! iL) - bL) + unat (fst (?m ! iH) - bH) < unat ?u"
    by (simp only: dL dH)
  note w = w_third_draw [OF a1 a2 a3 hu room']
  define x where "x = (if ?r < bL then ?r else if ?r < bH - dL then ?r + dL else ?r + dL + dH)"
  have xu: "x < ?u" and xL: "x < bL \<or> fst (?m ! iL) \<le> x" and xH: "x < bH \<or> fst (?m ! iH) \<le> x"
  proof -
    consider (c1) "?r < bL" | (c2) "\<not> ?r < bL" "?r < bH - dL" | (c3) "\<not> ?r < bL" "\<not> ?r < bH - dL"
      by blast
    then have "x < ?u \<and> (x < bL \<or> fst (?m ! iL) \<le> x) \<and> (x < bH \<or> fst (?m ! iH) \<le> x)"
    proof cases
      case c1
      then have "x = ?r" by (simp add: x_def)
      moreover from c1 a1 a2 have "?r < bH" by simp
      ultimately show ?thesis using c1 w by simp
    next
      case c2
      then have "x = ?r + dL" by (simp add: x_def)
      with c2 w show ?thesis by (simp add: dL)
    next
      case c3
      then have "x = ?r + dL + dH" by (simp add: x_def)
      moreover from a2 a3 have "fst (?m ! iL) \<le> fst (?m ! iH)" by simp
      ultimately show ?thesis using c3 w by (auto simp: dL dH)
    qed
    then show "x < ?u" and "x < bL \<or> fst (?m ! iL) \<le> x" and "x < bH \<or> fst (?m ! iH) \<le> x"
      by simp_all
  qed
  let ?i = "upper_bound x ?m"
  note p = draw_position [OF ok xu]
  have it3: "(if ?r < bL then upper_bound ?r ?m
              else if ?r < bH - dL then upper_bound (?r + dL) ?m
              else upper_bound (?r + dL + dH) ?m) = ?i"
    by (simp add: x_def)
  have res: "GetVia_third rndc fs n bL dL bH dH = Some (snd (?m ! ?i))"
    unfolding GetVia_third_def Let_def it3 using p(1,2) by simp
  have neL: "?i \<noteq> iL"
  proof
    assume "?i = iL"
    with p(3,4) have "bL \<le> x" "x < fst (?m ! iL)" by (simp_all add: bL)
    with xL show False by auto
  qed
  have neH: "?i \<noteq> iH"
  proof
    assume "?i = iH"
    with p(3,4) have "bH \<le> x" "x < fst (?m ! iH)" by (simp_all add: bH)
    with xH show False by auto
  qed
  from p(1,2) neL neH res show ?thesis by blast
qed


lemma w_cover_nat:
  fixes d1 d2 u :: u32
  assumes "\<not> u \<le> d1" "u - d1 \<le> d2"
  shows "unat u \<le> unat d1 + unat d2"
proof -
  have n1: "unat d1 < unat u" using assms(1) unfolding word_le_nat_alt by linarith
  have iu: "d1 \<le> u" unfolding word_le_nat_alt using n1 by linarith
  have s: "unat (u - d1) = unat u - unat d1" by (rule unat_sub [OF iu])
  have "unat u - unat d1 \<le> unat d2" using assms(2) by (simp only: word_le_nat_alt s)
  then show ?thesis by arith
qed

lemma w_two_cover_nat:
  fixes b e b2 e2 u :: u32
  assumes "b < e" "e \<le> b2" "b2 < e2" "e2 \<le> u" "unat u \<le> unat (e - b) + unat (e2 - b2)"
  shows "b = 0 \<and> e = b2 \<and> e2 = u"
proof -
  have n1: "unat b < unat e" "unat e \<le> unat b2" "unat b2 < unat e2" "unat e2 \<le> unat u"
    using assms(1-4) by (simp_all only: word_le_nat_alt word_less_nat_alt)
  have be: "b \<le> e" and be2: "b2 \<le> e2" using n1 by (simp_all only: word_le_nat_alt)
  have s: "unat (e - b) = unat e - unat b" by (rule unat_sub [OF be])
  have t: "unat (e2 - b2) = unat e2 - unat b2" by (rule unat_sub [OF be2])
  have n2: "unat u \<le> (unat e - unat b) + (unat e2 - unat b2)"
    using assms(5) by (simp only: s t)
  have r1: "(b = 0) = (unat b = 0)" by (simp only: unat_0_iff)
  have r2: "(e = b2) = (unat e = unat b2)" by (rule word_unat_eq_iff)
  have r3: "(e2 = u) = (unat e2 = unat u)" by (rule word_unat_eq_iff)
  show ?thesis unfolding r1 r2 r3 using n1 n2 by arith
qed

lemma two_shares_cover:
  assumes ok: "FlowStat_ok fs"
    and lt: "iL < iH" and len: "iH < length (shares fs)"
    and hu: "fst (shares fs ! iH) \<le> unrestricted fs"
    and cover: "unat (unrestricted fs) \<le>
        unat (fst (shares fs ! iL) - share_begin (shares fs) iL) +
        unat (fst (shares fs ! iH) - share_begin (shares fs) iH)"
    and j: "j < length (shares fs)" "fst (shares fs ! j) \<le> unrestricted fs"
  shows "j = iL \<or> j = iH"
proof -
  let ?m = "shares fs" and ?u = "unrestricted fs"
  from ok have v: "valid_map ?m" and nz: "\<forall>e \<in> set ?m. fst e \<noteq> 0"
    by (simp_all add: FlowStat_ok_def)
  from lt len have lenL: "iL < length ?m" by simp
  have a1: "share_begin ?m iL < fst (?m ! iL)" by (rule share_begin_less [OF v nz lenL])
  have a2: "fst (?m ! iL) \<le> share_begin ?m iH" by (rule key_le_share_begin [OF v lt len])
  have a3: "share_begin ?m iH < fst (?m ! iH)" by (rule share_begin_less [OF v nz len])
  from w_two_cover_nat [OF a1 a2 a3 hu cover]
  have z: "share_begin ?m iL = 0" and e: "fst (?m ! iL) = share_begin ?m iH" and t: "fst (?m ! iH) = ?u"
    by simp_all
  from share_begin_zero [OF nz lenL z] have iL0: "iL = 0" .
  from lt have "iH \<noteq> 0" by simp
  with e have "fst (?m ! iL) = fst (?m ! (iH - 1))" by (simp add: share_begin_def)
  moreover from len have l1: "iH - 1 < length ?m" by simp
  ultimately have "iL = iH - 1"
    using valid_map_nth_le_iff [OF v lenL l1] valid_map_nth_le_iff [OF v l1 lenL] by simp
  with iL0 \<open>iH \<noteq> 0\<close> have iH1: "iH = 1" by simp
  from j(2) t have "fst (?m ! j) \<le> fst (?m ! iH)" by simp
  with valid_map_nth_le_iff [OF v j(1) len] have "j \<le> iH" by simp
  with iL0 iH1 show ?thesis by auto
qed

lemma one_share_covers:
  assumes ok: "FlowStat_ok fs"
    and len: "i < length (shares fs)"
    and z: "share_begin (shares fs) i = 0" and t: "fst (shares fs ! i) = unrestricted fs"
    and j: "j < length (shares fs)" "fst (shares fs ! j) \<le> unrestricted fs"
  shows "j = i"
proof -
  let ?m = "shares fs"
  from ok have v: "valid_map ?m" and nz: "\<forall>e \<in> set ?m. fst e \<noteq> 0"
    by (simp_all add: FlowStat_ok_def)
  from share_begin_zero [OF nz len z] have "i = 0" .
  moreover from j(2) t have "fst (?m ! j) \<le> fst (?m ! i)" by simp
  with valid_map_nth_le_iff [OF v j(1) len] have "j \<le> i" by simp
  ultimately show ?thesis by simp
qed

lemma GetVia_post_share:
  assumes "i < length (shares fs)" "fst (shares fs ! i) \<le> unrestricted fs"
    "snd (shares fs ! i) \<noteq> A" "snd (shares fs ! i) \<noteq> B"
  shows "GetVia_post fs A B (snd (shares fs ! i))"
proof -
  from assms(1) have "shares fs ! i \<in> set (shares fs)" by simp
  with assms(2-4) show ?thesis unfolding GetVia_post_def by blast
qed

lemma GetVia_second_ok:
  assumes ok: "FlowStat_ok fs"
    and dr2: "draws_in_range rnd2" and dr3: "draws_in_range rnd3"
    and len: "i1 < length (shares fs)" and hu: "fst (shares fs ! i1) \<le> unrestricted fs"
    and ex1: "snd (shares fs ! i1) = A \<or> snd (shares fs ! i1) = B"
    and b1: "b1 = share_begin (shares fs) i1" and d1: "d1 = fst (shares fs ! i1) - b1"
    and room: "\<not> unrestricted fs \<le> d1"
  shows "\<exists>s. GetVia_second rnd2 rnd3 fs A B b1 d1 = Some s \<and> GetVia_post fs A B s"
proof -
  let ?m = "shares fs" and ?u = "unrestricted fs"
  from ok have v: "valid_map ?m" and nz: "\<forall>e \<in> set ?m. fst e \<noteq> 0"
    and dist: "distinct (map snd ?m)"
    by (simp_all add: FlowStat_ok_def)
  from dr2 dr3 have rnd2: "\<forall>n. n \<noteq> 0 \<longrightarrow> rnd2 n < n" and rnd3: "\<forall>n. n \<noteq> 0 \<longrightarrow> rnd3 n < n"
    by (simp_all add: draws_in_range_def)
  define new_max where "new_max = ?u - d1"
  define r where "r = rnd2 new_max"
  define x where "x = (if r < b1 then r else r + d1)"
  define i2 where "i2 = upper_bound x ?m"
  have a1: "b1 < fst (?m ! i1)" unfolding b1 by (rule share_begin_less [OF v nz len])
  from room have "new_max \<noteq> 0" by (auto simp: new_max_def)
  with rnd2 have rn: "r < ?u - (fst (?m ! i1) - b1)" by (simp add: r_def new_max_def d1)
  from room have room': "\<not> ?u \<le> fst (?m ! i1) - b1" by (simp add: d1)
  note w = w_second_draw [OF a1 hu room' rn]
  have xu: "x < ?u" and x1: "x < b1 \<or> fst (?m ! i1) \<le> x"
    using w by (auto simp: x_def d1)
  note p = draw_position [OF ok xu, folded i2_def]
  have ne: "i2 \<noteq> i1"
  proof
    assume "i2 = i1"
    with p(3,4) have "b1 \<le> x" "x < fst (?m ! i1)" by (simp_all add: b1)
    with x1 show False by auto
  qed
  have it2: "(if rnd2 (?u - d1) < b1 then upper_bound (rnd2 (?u - d1)) ?m
              else upper_bound (rnd2 (?u - d1) + d1) ?m) = i2"
    by (simp add: i2_def x_def r_def new_max_def)
  define b2 where "b2 = share_begin ?m i2"
  define d2 where "d2 = fst (?m ! i2) - b2"
  have unf: "GetVia_second rnd2 rnd3 fs A B b1 d1 =
     (if snd (?m ! i2) \<noteq> A \<and> snd (?m ! i2) \<noteq> B then Some (snd (?m ! i2))
      else if d2 \<ge> new_max then Some StationID_Invalid
      else if b1 > b2 then GetVia_third rnd3 fs (new_max - d2) b2 d2 b1 d1
      else GetVia_third rnd3 fs (new_max - d2) b1 d1 b2 d2)"
    unfolding GetVia_second_def Let_def it2 using p(1,2)
    by (simp add: b2_def d2_def new_max_def)
  show ?thesis
  proof (cases "snd (?m ! i2) \<noteq> A \<and> snd (?m ! i2) \<noteq> B")
    case True
    with GetVia_post_share [OF p(1,2)] unf show ?thesis by simp
  next
    case False
    then have ex2: "snd (?m ! i2) = A \<or> snd (?m ! i2) = B" by blast
    have a2: "b2 < fst (?m ! i2)" unfolding b2_def by (rule share_begin_less [OF v nz p(1)])
    have order: "(b1 > b2) = (i2 < i1)"
    proof
      assume g: "b1 > b2"
      show "i2 < i1"
      proof (rule ccontr)
        assume "\<not> i2 < i1"
        with ne have "i1 < i2" by simp
        from key_le_share_begin [OF v this p(1)] a1 g show False by (simp add: b2_def)
      qed
    next
      assume "i2 < i1"
      from key_le_share_begin [OF v this len] a2 show "b1 > b2" by (simp add: b1)
    qed
    show ?thesis
    proof (cases "d2 \<ge> new_max")
      case True
      then have c: "unat ?u \<le> unat d1 + unat d2"
        using w_cover_nat [OF room] by (simp add: new_max_def)
      have all: "\<forall>e \<in> set ?m. fst e \<le> ?u \<longrightarrow> snd e = A \<or> snd e = B"
      proof (intro ballI impI)
        fix e assume "e \<in> set ?m" and le: "fst e \<le> ?u"
        then obtain j where j: "j < length ?m" "?m ! j = e" by (auto simp: in_set_conv_nth)
        from le j have ju: "fst (?m ! j) \<le> ?u" by simp
        have "j = i1 \<or> j = i2"
        proof (cases "i2 < i1")
          case True
          from c have "unat ?u \<le> unat (fst (?m ! i2) - share_begin ?m i2) +
              unat (fst (?m ! i1) - share_begin ?m i1)"
            by (simp add: d1 d2_def b1 b2_def)
          from two_shares_cover [OF ok True len hu this j(1) ju] show ?thesis by blast
        next
          case False
          with ne have l: "i1 < i2" by simp
          from c have "unat ?u \<le> unat (fst (?m ! i1) - share_begin ?m i1) +
              unat (fst (?m ! i2) - share_begin ?m i2)"
            by (simp add: d1 d2_def b1 b2_def)
          from two_shares_cover [OF ok l p(1) p(2) this j(1) ju] show ?thesis by blast
        qed
        with ex1 ex2 j(2) show "snd e = A \<or> snd e = B" by auto
      qed
      from False True unf have "GetVia_second rnd2 rnd3 fs A B b1 d1 = Some StationID_Invalid"
        by auto
      with all show ?thesis by (simp add: GetVia_post_def)
    next
      case nc: False
      then have nc': "\<not> ?u - d1 \<le> d2" by (simp add: new_max_def)
      then have "new_max - d2 \<noteq> 0" by (auto simp: new_max_def)
      with rnd3 have "rnd3 (new_max - d2) < ?u - d1 - d2" by (simp add: new_max_def)
      from w_new_max [OF room nc' this]
      have rm: "unat (rnd3 (new_max - d2)) + unat d1 + unat d2 < unat ?u" .
      have "\<exists>i3. i3 < length ?m \<and> i3 \<noteq> i1 \<and> i3 \<noteq> i2 \<and> fst (?m ! i3) \<le> ?u \<and>
              GetVia_second rnd2 rnd3 fs A B b1 d1 = Some (snd (?m ! i3))"
      proof (cases "i2 < i1")
        case True
        from rm have rm': "unat (rnd3 (new_max - d2)) + unat d2 + unat d1 < unat ?u" by simp
        from GetVia_third_position [where rndc = rnd3 and n = "new_max - d2", OF ok True len hu b2_def b1 d2_def d1 rm']
        obtain i3 where "i3 < length ?m" "i3 \<noteq> i2" "i3 \<noteq> i1" "fst (?m ! i3) \<le> ?u"
          "GetVia_third rnd3 fs (new_max - d2) b2 d2 b1 d1 = Some (snd (?m ! i3))" by blast
        with unf False nc order True show ?thesis by auto
      next
        case f: False
        with ne have l: "i1 < i2" by simp
        from GetVia_third_position [where rndc = rnd3 and n = "new_max - d2", OF ok l p(1) p(2) b1 b2_def d1 d2_def rm]
        obtain i3 where "i3 < length ?m" "i3 \<noteq> i1" "i3 \<noteq> i2" "fst (?m ! i3) \<le> ?u"
          "GetVia_third rnd3 fs (new_max - d2) b1 d1 b2 d2 = Some (snd (?m ! i3))" by blast
        with unf False nc order f show ?thesis by auto
      qed
      then obtain i3 where i3: "i3 < length ?m" "i3 \<noteq> i1" "i3 \<noteq> i2" "fst (?m ! i3) \<le> ?u"
        and res: "GetVia_second rnd2 rnd3 fs A B b1 d1 = Some (snd (?m ! i3))" by blast
      have s31: "snd (?m ! i3) \<noteq> snd (?m ! i1)"
        using nth_eq_iff_index_eq [OF dist, of i3 i1] i3 len by simp
      have s32: "snd (?m ! i3) \<noteq> snd (?m ! i2)"
        using nth_eq_iff_index_eq [OF dist, of i3 i2] i3 p(1) by simp
      have s12: "snd (?m ! i1) \<noteq> snd (?m ! i2)"
        using nth_eq_iff_index_eq [OF dist, of i1 i2] ne len p(1) by simp
      from s31 s32 s12 ex1 ex2 have "snd (?m ! i3) \<noteq> A \<and> snd (?m ! i3) \<noteq> B" by auto
      with GetVia_post_share [OF i3(1,4)] res show ?thesis by auto
    qed
  qed
qed


lemma GetVia_ok:
  assumes ok: "FlowStat_ok fs"
    and dr1: "draws_in_range rnd1" and dr2: "draws_in_range rnd2" and dr3: "draws_in_range rnd3"
  shows "\<exists>s. GetVia rnd1 rnd2 rnd3 fs A B = Some s \<and> GetVia_post fs A B s"
proof -
  from dr1 have rnd1: "\<forall>n. n \<noteq> 0 \<longrightarrow> rnd1 n < n" by (simp add: draws_in_range_def)
  let ?m = "shares fs" and ?u = "unrestricted fs"
  from ok have v: "valid_map ?m" and nz: "\<forall>e \<in> set ?m. fst e \<noteq> 0"
    by (simp_all add: FlowStat_ok_def)
  from FlowStat_ok_boundary [OF ok] obtain j where j: "j < length ?m" "fst (?m ! j) = ?u"
    by blast
  from j nz have u0: "?u \<noteq> 0" by (metis nth_mem)
  from j have ne: "?m \<noteq> []" by auto
  define i1 where "i1 = upper_bound (rnd1 ?u) ?m"
  from rnd1 u0 have "rnd1 ?u < ?u" by simp
  note p = draw_position [OF ok this, folded i1_def]
  define b1 where "b1 = share_begin ?m i1"
  define d1 where "d1 = fst (?m ! i1) - b1"
  have unf: "GetVia rnd1 rnd2 rnd3 fs A B =
     (if snd (?m ! i1) \<noteq> A \<and> snd (?m ! i1) \<noteq> B then Some (snd (?m ! i1))
      else if d1 \<ge> ?u then Some StationID_Invalid
      else GetVia_second rnd2 rnd3 fs A B b1 d1)"
    unfolding GetVia_def Let_def using u0 ne p(1,2)
    by (simp add: i1_def b1_def d1_def)
  show ?thesis
  proof (cases "snd (?m ! i1) \<noteq> A \<and> snd (?m ! i1) \<noteq> B")
    case True
    with GetVia_post_share [OF p(1,2)] unf show ?thesis by simp
  next
    case False
    then have ex1: "snd (?m ! i1) = A \<or> snd (?m ! i1) = B" by blast
    show ?thesis
    proof (cases "d1 \<ge> ?u")
      case True
      have "b1 \<le> rnd1 ?u" using p(4) by (simp add: b1_def)
      from w_full_interval [OF this p(3) p(2)] True
      have z: "share_begin ?m i1 = 0" and t: "fst (?m ! i1) = ?u"
        by (simp_all add: d1_def b1_def)
      have all: "\<forall>e \<in> set ?m. fst e \<le> ?u \<longrightarrow> snd e = A \<or> snd e = B"
      proof (intro ballI impI)
        fix e assume "e \<in> set ?m" and le: "fst e \<le> ?u"
        then obtain k where k: "k < length ?m" "?m ! k = e" by (auto simp: in_set_conv_nth)
        from le k have "fst (?m ! k) \<le> ?u" by simp
        from one_share_covers [OF ok p(1) z t k(1) this] ex1 k(2)
        show "snd e = A \<or> snd e = B" by auto
      qed
      from ex1 True unf have "GetVia rnd1 rnd2 rnd3 fs A B = Some StationID_Invalid" by auto
      with all show ?thesis by (simp add: GetVia_post_def)
    next
      case nc: False
      from GetVia_second_ok [OF ok dr2 dr3 p(1) p(2) ex1 b1_def d1_def nc]
      obtain s where "GetVia_second rnd2 rnd3 fs A B b1 d1 = Some s" "GetVia_post fs A B s"
        by blast
      with ex1 nc unf show ?thesis by auto
    qed
  qed
qed

text \<open>
  Claim C1, as amended. For a \<^verbatim>\<open>FlowStat\<close> that satisfies its invariants and holds an
  unrestricted share, and a generator that draws below its limit, \<^verbatim>\<open>GetVia(A, B)\<close>
  returns a station. If some unrestricted share has a destination other than \<open>A\<close> and
  \<open>B\<close>, the result is neither \<open>A\<close> nor \<open>B\<close>. The result is the invalid station only
  if every unrestricted share belongs to \<open>A\<close> or \<open>B\<close>, or if the invalid station is
  itself the destination of an unrestricted share.
\<close>

theorem GetVia_exclusion_safe:
  assumes "FlowStat_ok fs"
    and "draws_in_range rnd1" and "draws_in_range rnd2" and "draws_in_range rnd3"
  shows "\<exists>s. GetVia rnd1 rnd2 rnd3 fs A B = Some s \<and>
      ((\<exists>e \<in> set (shares fs). fst e \<le> unrestricted fs \<and> snd e \<noteq> A \<and> snd e \<noteq> B)
         \<longrightarrow> s \<noteq> A \<and> s \<noteq> B) \<and>
      (s = StationID_Invalid \<longrightarrow>
         (\<forall>e \<in> set (shares fs). fst e \<le> unrestricted fs \<longrightarrow> snd e = A \<or> snd e = B) \<or>
         (\<exists>e \<in> set (shares fs). fst e \<le> unrestricted fs \<and> snd e = StationID_Invalid))"
proof -
  from GetVia_ok [OF assms] obtain s
    where s: "GetVia rnd1 rnd2 rnd3 fs A B = Some s" and post: "GetVia_post fs A B s" by blast
  from post have "(\<exists>e \<in> set (shares fs). fst e \<le> unrestricted fs \<and> snd e \<noteq> A \<and> snd e \<noteq> B)
         \<longrightarrow> s \<noteq> A \<and> s \<noteq> B"
    unfolding GetVia_post_def by blast
  moreover from post have "s = StationID_Invalid \<longrightarrow>
         (\<forall>e \<in> set (shares fs). fst e \<le> unrestricted fs \<longrightarrow> snd e = A \<or> snd e = B) \<or>
         (\<exists>e \<in> set (shares fs). fst e \<le> unrestricted fs \<and> snd e = StationID_Invalid)"
    unfolding GetVia_post_def by blast
  ultimately show ?thesis using s by blast
qed

lemma draw_zero_in_range: "draws_in_range draw_zero"
  by (simp add: draws_in_range_def draw_zero_def word_greater_zero_iff)

theorem GetVia_exclusion_safe_witness:
  "FlowStat_ok \<lparr>shares = [(10, 1), (30, 2), (35, 3)], unrestricted = 35\<rparr> \<and>
   draws_in_range draw_zero \<and>
   (\<exists>s. GetVia draw_zero draw_zero draw_zero
            \<lparr>shares = [(10, 1), (30, 2), (35, 3)], unrestricted = 35\<rparr> 1 2 = Some s \<and>
        s \<noteq> 1 \<and> s \<noteq> 2)"
proof -
  let ?fs = "\<lparr>shares = [(10, 1), (30, 2), (35, 3)], unrestricted = 35\<rparr> :: FlowStat"
  have ok: "FlowStat_ok ?fs"
    by (simp add: FlowStat_ok_def valid_map_def)
  have ex: "\<exists>e \<in> set (shares ?fs). fst e \<le> unrestricted ?fs \<and> snd e \<noteq> 1 \<and> snd e \<noteq> 2"
    by simp
  show ?thesis
    using GetVia_exclusion_safe [OF ok draw_zero_in_range draw_zero_in_range draw_zero_in_range,
        of 1 2] ok draw_zero_in_range ex
    by blast
qed

text \<open>
  The claim as stated fails where the invalid station is a destination, as it is after
  \<^verbatim>\<open>FlowStatMap::PassOnFlow\<close>: \<^verbatim>\<open>GetVia(1, 2)\<close> returns the invalid station although
  stations 1 and 2 hold no share at all.
\<close>

theorem GetVia_invalid_counterexample:
  "FlowStat_ok \<lparr>shares = [(10, StationID_Invalid)], unrestricted = 10\<rparr> \<and>
   GetVia draw_zero draw_zero draw_zero \<lparr>shares = [(10, StationID_Invalid)], unrestricted = 10\<rparr> 1 2
     = Some StationID_Invalid \<and>
   StationID_Invalid \<noteq> 1 \<and> StationID_Invalid \<noteq> 2"
  by (simp add: FlowStat_ok_def valid_map_def GetVia_def upper_bound_def draw_zero_def
      StationID_Invalid_def Let_def)


section \<open>Properties of the station rating\<close>

lemma uint_ClampTo_u8: "uint (ClampTo_u8 a) = Clamp a 0 255"
proof -
  have b: "0 \<le> Clamp a 0 255" "Clamp a 0 255 < 2 ^ 8"
    by (simp_all add: Clamp_def)
  have "uint (word_of_int (Clamp a 0 255) :: u8) = take_bit 8 (Clamp a 0 255)"
    by (simp add: uint_word_of_int_eq)
  also have "\<dots> = Clamp a 0 255"
    using b by (simp add: take_bit_int_eq_self)
  finally show ?thesis by (simp add: ClampTo_u8_def)
qed

lemma uint_u8_range: "0 \<le> uint (x :: u8) \<and> uint x \<le> 255"
proof -
  have "uint x < 2 ^ LENGTH(8)" by (rule uint_lt2p)
  then show ?thesis by simp
qed

lemma smoothing_bound:
  "\<bar>uint (ClampTo_u8 (uint (x :: u8) + Clamp d (- 2) 2)) - uint x\<bar> \<le> 2"
proof -
  define e where "e = Clamp d (- 2) 2"
  have e: "- 2 \<le> e \<and> e \<le> 2" by (simp add: e_def Clamp_def)
  have "\<bar>Clamp (uint x + e) 0 255 - uint x\<bar> \<le> 2"
    unfolding Clamp_def using uint_u8_range [of x] e by arith
  then show ?thesis by (simp only: uint_ClampTo_u8 e_def)
qed

lemma uint_u8_succ:
  fixes x i :: u8
  assumes "x < i"
  shows "uint (x + 1) = uint x + 1"
proof -
  from assms have "uint x < uint i" by (simp add: word_less_def)
  with uint_u8_range [of i] have "uint x + 1 < 2 ^ LENGTH(8)" by simp
  then show ?thesis by (simp add: uint_add_lem [THEN iffD1])
qed

lemma UpdateStationRating_cargo_bound:
  assumes "\<not> cheat_station_rating inp"
  shows "\<bar>uint (rating (UpdateStationRating_cargo inp ge)) - uint (rating ge)\<bar> \<le> 2"
proof (cases "HasRating ge")
  case False
  then show ?thesis
    using uint_u8_succ [of "rating ge" "INITIAL_STATION_RATING inp"]
    by (simp add: UpdateStationRating_cargo_def Let_def HasRating_def)
next
  case True
  let ?ge2 = "ge\<lparr>time_since_pickup := byte_inc_sat (time_since_pickup ge)\<rparr>"
  show ?thesis
  proof (cases "time_since_pickup ?ge2 = 255 \<and> selectgoods inp")
    case off: True
    with True show ?thesis
      by (simp add: UpdateStationRating_cargo_def Let_def HasRating_def)
  next
    case on: False
    with True assms show ?thesis
      using smoothing_bound [of "rating ge"]
      by (simp add: UpdateStationRating_cargo_def Let_def HasRating_def split: option.splits)
  qed
qed

text \<open>
  Claim C4. With the station rating cheat off, one run of \<^verbatim>\<open>UpdateStationRating\<close>
  changes the rating of every cargo type by at most 2. (With the cheat on the rating is
  set to the maximum at once; a new station starts from the initial rating elsewhere.)
\<close>

theorem rating_changes_by_at_most_two:
  assumes "c < length (goods st)"
    and "case inputs c of None \<Rightarrow> True | Some inp \<Rightarrow> \<not> cheat_station_rating inp"
  shows "\<bar>uint (rating (goods (UpdateStationRating inputs st) ! c)) - uint (rating (goods st ! c))\<bar> \<le> 2"
proof (cases "inputs c")
  case None
  with assms(1) show ?thesis by (simp add: UpdateStationRating_def)
next
  case (Some inp)
  with assms(2) have "\<not> cheat_station_rating inp" by simp
  from UpdateStationRating_cargo_bound [OF this, of "goods st ! c"] Some assms(1)
  show ?thesis by (simp add: UpdateStationRating_def)
qed

theorem rating_changes_by_at_most_two_witness:
  "(0 :: nat) < length (goods
      \<lparr>index = 1, owner = 0, town = 0, facilities = {Train}, rect_IsEmpty = False,
       string_id = STR_SV_STNAME_WOODS, indtype = 0, time_since_load = 0, time_since_unload = 0,
       goods = [\<lparr>status = {Rating}, rating = 100, time_since_pickup = 2, last_speed = 120,
                 last_age = 0, max_waiting_cargo = 50, link_graph = 0, node = 0\<rparr>]\<rparr>) \<and>
   \<not> cheat_station_rating
       \<lparr>cheat_station_rating = False, selectgoods = True, last_vehicle_is_ship = False,
        owner_has_statue = False, rating_callback = None,
        INITIAL_STATION_RATING = 175, MAX_STATION_RATING = 255, CALLBACK_FAILED = 0xFFFF\<rparr> \<and>
   \<bar>uint (rating (goods (UpdateStationRating
        (\<lambda>c. Some \<lparr>cheat_station_rating = False, selectgoods = True, last_vehicle_is_ship = False,
                 owner_has_statue = False, rating_callback = None,
                 INITIAL_STATION_RATING = 175, MAX_STATION_RATING = 255,
                 CALLBACK_FAILED = 0xFFFF\<rparr>)
      \<lparr>index = 1, owner = 0, town = 0, facilities = {Train}, rect_IsEmpty = False,
       string_id = STR_SV_STNAME_WOODS, indtype = 0, time_since_load = 0, time_since_unload = 0,
       goods = [\<lparr>status = {Rating}, rating = 100, time_since_pickup = 2, last_speed = 120,
                 last_age = 0, max_waiting_cargo = 50, link_graph = 0, node = 0\<rparr>]\<rparr>) ! 0)) - 100\<bar> \<le> 2"
  using rating_changes_by_at_most_two [of 0
      "\<lparr>index = 1, owner = 0, town = 0, facilities = {Train}, rect_IsEmpty = False,
       string_id = STR_SV_STNAME_WOODS, indtype = 0, time_since_load = 0, time_since_unload = 0,
       goods = [\<lparr>status = {Rating}, rating = 100, time_since_pickup = 2, last_speed = 120,
                 last_age = 0, max_waiting_cargo = 50, link_graph = 0, node = 0\<rparr>]\<rparr>"
      "\<lambda>c. Some \<lparr>cheat_station_rating = False, selectgoods = True, last_vehicle_is_ship = False,
                 owner_has_statue = False, rating_callback = None,
                 INITIAL_STATION_RATING = 175, MAX_STATION_RATING = 255,
                 CALLBACK_FAILED = 0xFFFF\<rparr>"]
  by simp


section \<open>Properties of the station acceptance\<close>

lemma UpdateStationAcceptance_loop_length:
  "length (fst (UpdateStationAcceptance_loop inp st cs (gs, d))) = length gs"
  by (induction cs arbitrary: gs d) (simp_all add: Let_def)

lemma UpdateStationAcceptance_loop_status:
  assumes "cargo < length gs"
  shows "(Acceptance \<in> status (fst (UpdateStationAcceptance_loop inp st cs (gs, d)) ! cargo)) =
         (if cargo \<in> set cs then 8 \<le> acceptance_amt inp st cargo
          else Acceptance \<in> status (gs ! cargo))"
  using assms
proof (induction cs arbitrary: gs d)
  case Nil
  then show ?case by simp
next
  case (Cons c cs)
  let ?amt = "acceptance_amt inp st c"
  let ?ge = "(gs ! c)\<lparr>status := (if ?amt \<ge> 8 then insert Acceptance (status (gs ! c))
                               else status (gs ! c) - {Acceptance})\<rparr>"
  let ?gs = "gs[c := ?ge]"
  let ?d = "if LinkGraph_IsValidID inp (link_graph ?ge)
            then d((link_graph ?ge, node ?ge) := ?amt div 8) else d"
  have step: "UpdateStationAcceptance_loop inp st (c # cs) (gs, d) =
              UpdateStationAcceptance_loop inp st cs (?gs, ?d)"
    by (simp add: Let_def)
  from Cons.prems have len: "cargo < length ?gs" by simp
  note ih = Cons.IH [OF len, of ?d]
  show ?case
  proof (cases "c = cargo")
    case True
    with Cons.prems have "(Acceptance \<in> status (?gs ! cargo)) = (8 \<le> acceptance_amt inp st cargo)"
      by simp
    with ih True show ?thesis unfolding step by simp
  next
    case False
    then have "?gs ! cargo = gs ! cargo" by simp
    with ih False show ?thesis unfolding step by simp
  qed
qed

lemma acceptance_amt_threshold:
  "(8 \<le> acceptance_amt inp st cargo) =
   (8 \<le> acceptance_array inp st cargo \<and>
    (if IsCargoInClass_Passengers inp cargo
     then facilities st \<inter> {Train, BusStop, Airport, Dock} \<noteq> {}
     else facilities st \<inter> {Train, TruckStop, Airport, Dock} \<noteq> {}))"
  by (simp add: acceptance_amt_def facility_Any_def Let_def)

text \<open>
  Claim C5. After \<^verbatim>\<open>UpdateStationAcceptance\<close> the acceptance bit of a cargo type is set
  if and only if the accumulated acceptance of that cargo is at least 8 and the station
  has a facility for the cargo's class: train, bus stop, airport or dock for passengers;
  train, truck stop, airport or dock for any other cargo.
\<close>

theorem acceptance_bit_iff_threshold_and_facility:
  assumes "length (goods st) = NUM_CARGO" and "cargo < NUM_CARGO"
  shows "(Acceptance \<in> status (goods (fst (UpdateStationAcceptance inp st demand)) ! cargo)) =
         (8 \<le> acceptance_array inp st cargo \<and>
          (if IsCargoInClass_Passengers inp cargo
           then facilities st \<inter> {Train, BusStop, Airport, Dock} \<noteq> {}
           else facilities st \<inter> {Train, TruckStop, Airport, Dock} \<noteq> {}))"
proof -
  from assms have len: "cargo < length (goods st)" by simp
  have "goods (fst (UpdateStationAcceptance inp st demand)) =
        fst (UpdateStationAcceptance_loop inp st [0..<NUM_CARGO] (goods st, demand))"
    by (simp add: UpdateStationAcceptance_def split: prod.splits)
  with UpdateStationAcceptance_loop_status [OF len, of inp st "[0..<NUM_CARGO]" demand] assms(2)
  show ?thesis by (simp add: acceptance_amt_threshold)
qed

theorem acceptance_bit_iff_threshold_and_facility_witness:
  "length (goods
      \<lparr>index = 1, owner = 0, town = 0, facilities = {BusStop}, rect_IsEmpty = False,
       string_id = STR_SV_STNAME_WOODS, indtype = 0, time_since_load = 0, time_since_unload = 0,
       goods = replicate NUM_CARGO
                \<lparr>status = {}, rating = 175, time_since_pickup = 0, last_speed = 0,
                 last_age = 0, max_waiting_cargo = 0, link_graph = 0, node = 0\<rparr>\<rparr>) = NUM_CARGO \<and>
   (0 :: nat) < NUM_CARGO \<and>
   Acceptance \<in> status (goods (fst (UpdateStationAcceptance
      \<lparr>GetAcceptanceAroundStation = (\<lambda>c. 8), IsCargoInClass_Passengers = (\<lambda>c. c = 0),
       LinkGraph_IsValidID = (\<lambda>g. False)\<rparr>
      \<lparr>index = 1, owner = 0, town = 0, facilities = {BusStop}, rect_IsEmpty = False,
       string_id = STR_SV_STNAME_WOODS, indtype = 0, time_since_load = 0, time_since_unload = 0,
       goods = replicate NUM_CARGO
                \<lparr>status = {}, rating = 175, time_since_pickup = 0, last_speed = 0,
                 last_age = 0, max_waiting_cargo = 0, link_graph = 0, node = 0\<rparr>\<rparr>
      (\<lambda>k. 0))) ! 0)"
  using acceptance_bit_iff_threshold_and_facility [of
      "\<lparr>index = 1, owner = 0, town = 0, facilities = {BusStop}, rect_IsEmpty = False,
       string_id = STR_SV_STNAME_WOODS, indtype = 0, time_since_load = 0, time_since_unload = 0,
       goods = replicate NUM_CARGO
                \<lparr>status = {}, rating = 175, time_since_pickup = 0, last_speed = 0,
                 last_age = 0, max_waiting_cargo = 0, link_graph = 0, node = 0\<rparr>\<rparr>"
      0
      "\<lparr>GetAcceptanceAroundStation = (\<lambda>c. 8), IsCargoInClass_Passengers = (\<lambda>c. c = 0),
       LinkGraph_IsValidID = (\<lambda>g. False)\<rparr>"
      "\<lambda>k. 0"]
  by (simp add: NUM_CARGO_def acceptance_array_def)


section \<open>Properties of the buildable tile check\<close>

lemma CheckBuildableTile_first:
  assumes "allowed_z < 0"
    and "\<not> Failed (fst (CheckBuildableTile env t dirs allowed_z steep cb))"
  shows "snd (CheckBuildableTile env t dirs allowed_z steep cb) = flat_z env t"
  using assms
  by (auto simp: Failed_simps CheckBuildableTile_def flat_z_def Let_def split: if_splits prod.splits)

lemma CheckBuildableTile_later:
  assumes "0 \<le> allowed_z"
    and "\<not> Failed (fst (CheckBuildableTile env t dirs allowed_z steep cb))"
  shows "snd (CheckBuildableTile env t dirs allowed_z steep cb) = allowed_z"
    and "flat_z env t = allowed_z"
  using assms
  by (auto simp: Failed_simps CheckBuildableTile_def flat_z_def Let_def split: if_splits prod.splits)

lemma CheckBuildableTile_differs:
  assumes "0 \<le> allowed_z" and "flat_z env t \<noteq> allowed_z"
    and "\<not> (cb \<and> IsBridgeAbove env t)" and "\<not> Failed (EnsureNoVehicleOnGround env t)"
  shows "CheckBuildableTile env t dirs allowed_z steep cb =
         (CommandCost_error STR_ERROR_FLAT_LAND_REQUIRED, allowed_z)"
  using assms
  by (auto simp: Failed_simps CheckBuildableTile_def flat_z_def Let_def split: if_splits prod.splits)

lemma CheckBuildableTile_bridge:
  assumes "cb" and "IsBridgeAbove env t"
  shows "CheckBuildableTile env t dirs allowed_z steep cb =
         (CommandCost_error STR_ERROR_MUST_DEMOLISH_BRIDGE_FIRST, allowed_z)"
  using assms by (simp add: CheckBuildableTile_def)

lemma CheckBuildableTile_vehicle:
  assumes "\<not> (cb \<and> IsBridgeAbove env t)" and "Failed (EnsureNoVehicleOnGround env t)"
  shows "CheckBuildableTile env t dirs allowed_z steep cb =
         (EnsureNoVehicleOnGround env t, allowed_z)"
  using assms by (auto simp: CheckBuildableTile_def Let_def)

lemma CheckBuildableTile_differs_Failed:
  assumes "0 \<le> allowed_z" and "flat_z env t \<noteq> allowed_z"
  shows "Failed (fst (CheckBuildableTile env t dirs allowed_z steep cb))"
  using CheckBuildableTile_later(2) [OF assms(1)] assms(2) by blast

subsection \<open>The airport\<close>

lemma CheckFlatLandAirport_loop_differs:
  assumes "0 \<le> allowed_z" and "t \<in> set ts" and "flat_z env t \<noteq> allowed_z"
  shows "Failed (CheckFlatLandAirport_loop env ts (acc, allowed_z))"
  using assms
proof (induction ts arbitrary: acc)
  case Nil
  then show ?case by (simp add: Failed_simps)
next
  case (Cons x ts)
  obtain ret az where r: "CheckBuildableTile env x {} allowed_z True True = (ret, az)"
    by (cases "CheckBuildableTile env x {} allowed_z True True")
  show ?case
  proof (cases "Failed ret")
    case True
    with r show ?thesis by (simp add: Failed_simps)
  next
    case False
    with r CheckBuildableTile_later [OF Cons.prems(1), of env x "{}" True True]
    have az: "az = allowed_z" and fz: "flat_z env x = allowed_z" by (simp_all add: Failed_simps)
    with Cons.prems have "t \<in> set ts" by auto
    from Cons.IH [OF Cons.prems(1) this Cons.prems(3)] r False az
    show ?thesis by (simp add: Failed_simps Let_def)
  qed
qed

lemma CheckFlatLandAirport_loop_prefix:
  assumes "0 \<le> allowed_z" and "flat_z env t \<noteq> allowed_z"
    and "\<not> Failed (CheckFlatLandAirport_loop env pre (acc, allowed_z))"
  shows "CheckFlatLandAirport_loop env (pre @ t # post) (acc, allowed_z) =
         fst (CheckBuildableTile env t {} allowed_z True True)"
  using assms(3)
proof (induction pre arbitrary: acc)
  case Nil
  from CheckBuildableTile_differs_Failed [OF assms(1,2), of "{}" True True]
  show ?case by (cases "CheckBuildableTile env t {} allowed_z True True") simp
next
  case (Cons x pre)
  obtain ret az where r: "CheckBuildableTile env x {} allowed_z True True = (ret, az)"
    by (cases "CheckBuildableTile env x {} allowed_z True True")
  from Cons.prems r have nf: "\<not> Failed ret"
    by (auto simp: Let_def split: if_splits)
  with r CheckBuildableTile_later(1) [OF assms(1), of env x "{}" True True]
  have az: "az = allowed_z" by simp
  from Cons.prems r nf have c: "\<not> Failed (LandscapeClear env x)"
    by (auto simp: Let_def split: if_splits)
  from Cons.prems r nf c az
  have "\<not> Failed (CheckFlatLandAirport_loop env pre
           (AddCost (AddCost acc (cost ret)) (cost (LandscapeClear env x)), allowed_z))"
    by (simp add: Let_def)
  from Cons.IH [OF this] r nf c az show ?case by (simp add: Let_def)
qed

lemma CheckFlatLandAirport_first:
  assumes "\<not> Failed (fst (CheckBuildableTile env t0 {} (- 1) True True))"
    and "\<not> Failed (LandscapeClear env t0)"
  shows "CheckFlatLandAirport env (t0 # ts) =
         CheckFlatLandAirport_loop env ts
           (AddCost (AddCost CommandCost_ok (cost (fst (CheckBuildableTile env t0 {} (- 1) True True))))
              (cost (LandscapeClear env t0)), flat_z env t0)"
  using assms CheckBuildableTile_first [of "- 1" env t0 "{}" True True]
  by (cases "CheckBuildableTile env t0 {} (- 1) True True")
    (simp add: CheckFlatLandAirport_def Let_def)

lemma CheckFlatLandAirport_differs:
  assumes "t \<in> set ts" and "flat_z env t \<noteq> flat_z env t0" and "0 \<le> flat_z env t0"
  shows "Failed (CheckFlatLandAirport env (t0 # ts))"
proof (cases "Failed (fst (CheckBuildableTile env t0 {} (- 1) True True)) \<or>
              Failed (LandscapeClear env t0)")
  case True
  then show ?thesis
    by (auto simp: CheckFlatLandAirport_def Let_def split: prod.splits)
next
  case False
  with CheckFlatLandAirport_first [of env t0 ts]
    CheckFlatLandAirport_loop_differs [OF assms(3,1,2)]
  show ?thesis by simp
qed

lemma CheckFlatLandAirport_prefix:
  assumes "flat_z env t \<noteq> flat_z env t0" and "0 \<le> flat_z env t0"
    and "\<not> Failed (CheckFlatLandAirport env (t0 # pre))"
  shows "CheckFlatLandAirport env (t0 # pre @ t # post) =
         fst (CheckBuildableTile env t {} (flat_z env t0) True True)"
proof -
  from assms(3) have nf: "\<not> Failed (fst (CheckBuildableTile env t0 {} (- 1) True True))"
    and c: "\<not> Failed (LandscapeClear env t0)"
    by (auto simp: CheckFlatLandAirport_def Let_def split: prod.splits if_splits)
  from assms(3) CheckFlatLandAirport_first [OF nf c, of pre]
    CheckFlatLandAirport_first [OF nf c, of "pre @ t # post"]
    CheckFlatLandAirport_loop_prefix [OF assms(2,1)]
  show ?thesis by simp
qed

subsection \<open>The rail station\<close>

lemma CheckFlatLandRailStation_failed:
  assumes "Failed (fst (CheckBuildableTile env x (AxisToDiagDirs renv axis) allowed_z False True))"
  shows "fst (CheckFlatLandRailStation env m renv x north_tile allowed_z axis station rt aff
                spec_class spec_index plat_len numtracks) =
         fst (CheckBuildableTile env x (AxisToDiagDirs renv axis) allowed_z False True)"
  using assms
  by (cases "CheckBuildableTile env x (AxisToDiagDirs renv axis) allowed_z False True")
    (simp add: CheckFlatLandRailStation_def Let_def)

lemma CheckFlatLandRailStation_passed:
  assumes "\<not> Failed (fst (CheckFlatLandRailStation env m renv x north_tile allowed_z axis station
                rt aff spec_class spec_index plat_len numtracks))"
  shows "\<not> Failed (fst (CheckBuildableTile env x (AxisToDiagDirs renv axis) allowed_z False True))"
    and "fst (snd (CheckFlatLandRailStation env m renv x north_tile allowed_z axis station rt aff
                spec_class spec_index plat_len numtracks)) =
         snd (CheckBuildableTile env x (AxisToDiagDirs renv axis) allowed_z False True)"
  using assms
  by (auto simp: CheckFlatLandRailStation_def Let_def split: prod.splits if_splits)

text \<open>One round of the loop either returns or goes on with a cost that is no failure.\<close>

lemma CalculateRailStationCost_loop_step:
  assumes r_def: "r = CheckFlatLandRailStation env m renv x north_tile allowed_z axis station rt
                  aff spec_class spec_index plat_len numtracks"
  shows "(Failed (fst r) \<and>
          (\<forall>ys. fst (CalculateRailStationCost_loop env m renv north_tile axis rt spec_class
                  spec_index plat_len numtracks (x # ys)
                  (acc, ready, tracknum, allowed_z, station, aff)) = fst r)) \<or>
         (\<not> Failed (fst r) \<and>
          (\<exists>acc' ready' tracknum' station' aff'. Failed acc' = Failed acc \<and>
             (\<forall>ys. CalculateRailStationCost_loop env m renv north_tile axis rt spec_class
                  spec_index plat_len numtracks (x # ys)
                  (acc, ready, tracknum, allowed_z, station, aff) =
                CalculateRailStationCost_loop env m renv north_tile axis rt spec_class
                  spec_index plat_len numtracks ys
                  (acc', ready', tracknum', fst (snd r), station', aff'))))"
proof -
  let ?r = "CheckFlatLandRailStation env m renv x north_tile allowed_z axis station rt aff
              spec_class spec_index plat_len numtracks"
  obtain ret az st af where e: "?r = (ret, az, st, af)" by (cases ?r) auto
  show ?thesis
  proof (cases "Failed ret")
    case True
    with e show ?thesis unfolding r_def by simp
  next
    case False
    let ?is_new = "\<not> IsRailStationTile renv x \<or>
                   (IsRailStationTile renv x \<and> GetRailStationAxis renv x \<noteq> axis)"
    let ?ready1 = "if tracknum = numtracks then True else ready"
    let ?tn = "if tracknum = numtracks then 0 else tracknum + 1"
    let ?cost1 = "if ?is_new
                  then AddCost (AddCost (AddCost acc (cost ret))
                         (price_PR_BUILD_STATION_RAIL renv)) (RailBuildCost renv rt)
                  else acc"
    let ?cost2 = "if ?is_new \<and> ?ready1
                  then AddCost ?cost1 (price_PR_BUILD_STATION_RAIL_LENGTH renv) else ?cost1"
    let ?ready2 = "if ?is_new \<and> ?ready1 then False else ?ready1"
    have f: "Failed ?cost2 = Failed acc" by (simp add: Failed_simps)
    have go: "\<forall>ys. CalculateRailStationCost_loop env m renv north_tile axis rt spec_class
                  spec_index plat_len numtracks (x # ys)
                  (acc, ready, tracknum, allowed_z, station, aff) =
                CalculateRailStationCost_loop env m renv north_tile axis rt spec_class
                  spec_index plat_len numtracks ys
                  (?cost2, ?ready2, ?tn, az, st, af)"
      using e False by (simp add: Let_def)
    from e False have nf: "\<not> Failed (fst ?r)" and az: "fst (snd ?r) = az" by simp_all
    from nf f go show ?thesis unfolding r_def az by blast
  qed
qed

lemma CalculateRailStationCost_loop_differs:
  assumes "0 \<le> allowed_z" and "t \<in> set ts" and "flat_z env t \<noteq> allowed_z"
  shows "Failed (fst (CalculateRailStationCost_loop env m renv north_tile axis rt spec_class
            spec_index plat_len numtracks ts (acc, ready, tracknum, allowed_z, station, aff)))"
  using assms(2)
proof (induction ts arbitrary: acc ready tracknum station aff)
  case Nil
  then show ?case by simp
next
  case (Cons x ts)
  let ?r = "CheckFlatLandRailStation env m renv x north_tile allowed_z axis station rt aff
              spec_class spec_index plat_len numtracks"
  from CalculateRailStationCost_loop_step [OF refl, of env m renv x north_tile allowed_z axis station rt
      aff spec_class spec_index plat_len numtracks acc ready tracknum]
  show ?case
  proof (elim disjE conjE exE)
    assume "Failed (fst ?r)"
      and "\<forall>ys. fst (CalculateRailStationCost_loop env m renv north_tile axis rt spec_class
                  spec_index plat_len numtracks (x # ys)
                  (acc, ready, tracknum, allowed_z, station, aff)) = fst ?r"
    then show ?thesis by simp
  next
    fix acc' ready' tracknum' station' aff'
    assume nf: "\<not> Failed (fst ?r)"
      and go: "\<forall>ys. CalculateRailStationCost_loop env m renv north_tile axis rt spec_class
                  spec_index plat_len numtracks (x # ys)
                  (acc, ready, tracknum, allowed_z, station, aff) =
                CalculateRailStationCost_loop env m renv north_tile axis rt spec_class
                  spec_index plat_len numtracks ys
                  (acc', ready', tracknum', fst (snd ?r), station', aff')"
    from CheckFlatLandRailStation_passed [OF nf]
      CheckBuildableTile_later [OF assms(1), of env x "AxisToDiagDirs renv axis" False True]
    have az: "fst (snd ?r) = allowed_z" and fz: "flat_z env x = allowed_z" by simp_all
    with Cons.prems assms(3) have "t \<in> set ts" by auto
    from Cons.IH [OF this] go az show ?thesis by simp
  qed
qed

lemma CalculateRailStationCost_loop_prefix:
  assumes "0 \<le> allowed_z" and "flat_z env t \<noteq> allowed_z"
    and "\<not> Failed acc"
    and "\<not> Failed (fst (CalculateRailStationCost_loop env m renv north_tile axis rt spec_class
            spec_index plat_len numtracks pre (acc, ready, tracknum, allowed_z, station, aff)))"
  shows "fst (CalculateRailStationCost_loop env m renv north_tile axis rt spec_class
            spec_index plat_len numtracks (pre @ t # post)
            (acc, ready, tracknum, allowed_z, station, aff)) =
         fst (CheckBuildableTile env t (AxisToDiagDirs renv axis) allowed_z False True)"
  using assms(3,4)
proof (induction pre arbitrary: acc ready tracknum station aff)
  case Nil
  let ?r = "CheckFlatLandRailStation env m renv t north_tile allowed_z axis station rt aff
              spec_class spec_index plat_len numtracks"
  from CheckBuildableTile_differs_Failed [OF assms(1,2)]
  have f: "Failed (fst (CheckBuildableTile env t (AxisToDiagDirs renv axis) allowed_z False True))" .
  from CheckFlatLandRailStation_failed [OF f] f
  have "Failed (fst ?r)"
    and "fst ?r = fst (CheckBuildableTile env t (AxisToDiagDirs renv axis) allowed_z False True)"
    by simp_all
  with CalculateRailStationCost_loop_step [OF refl, of env m renv t north_tile allowed_z axis station rt
      aff spec_class spec_index plat_len numtracks acc ready tracknum]
  show ?case by auto
next
  case (Cons x pre)
  let ?r = "CheckFlatLandRailStation env m renv x north_tile allowed_z axis station rt aff
              spec_class spec_index plat_len numtracks"
  from CalculateRailStationCost_loop_step [OF refl, of env m renv x north_tile allowed_z axis station rt
      aff spec_class spec_index plat_len numtracks acc ready tracknum]
  show ?case
  proof (elim disjE conjE exE)
    assume "Failed (fst ?r)"
      and "\<forall>ys. fst (CalculateRailStationCost_loop env m renv north_tile axis rt spec_class
                  spec_index plat_len numtracks (x # ys)
                  (acc, ready, tracknum, allowed_z, station, aff)) = fst ?r"
    with Cons.prems(2) show ?thesis by simp
  next
    fix acc' ready' tracknum' station' aff'
    assume nf: "\<not> Failed (fst ?r)" and fa: "Failed acc' = Failed acc"
      and go: "\<forall>ys. CalculateRailStationCost_loop env m renv north_tile axis rt spec_class
                  spec_index plat_len numtracks (x # ys)
                  (acc, ready, tracknum, allowed_z, station, aff) =
                CalculateRailStationCost_loop env m renv north_tile axis rt spec_class
                  spec_index plat_len numtracks ys
                  (acc', ready', tracknum', fst (snd ?r), station', aff')"
    from CheckFlatLandRailStation_passed [OF nf]
      CheckBuildableTile_later(1) [OF assms(1), of env x "AxisToDiagDirs renv axis" False True]
    have az: "fst (snd ?r) = allowed_z" by simp
    from fa Cons.prems(1) have a: "\<not> Failed acc'" by simp
    from Cons.prems(2) go az
    have b: "\<not> Failed (fst (CalculateRailStationCost_loop env m renv north_tile axis rt
                spec_class spec_index plat_len numtracks pre
                (acc', ready', tracknum', allowed_z, station', aff')))" by simp
    from Cons.IH [OF a b] go az show ?thesis by simp
  qed
qed

lemma CalculateRailStationCost_differs:
  assumes "t \<in> set ts" and "flat_z env t \<noteq> flat_z env t0" and "0 \<le> flat_z env t0"
  shows "Failed (fst (CalculateRailStationCost env m renv (t0 # ts) north_tile axis station rt
            aff spec_class spec_index plat_len numtracks))"
proof -
  let ?r = "CheckFlatLandRailStation env m renv t0 north_tile (- 1) axis station rt aff
              spec_class spec_index plat_len numtracks"
  from CalculateRailStationCost_loop_step [OF refl, of env m renv t0 north_tile "- 1" axis station rt
      aff spec_class spec_index plat_len numtracks CommandCost_ok True 0]
  show ?thesis
  proof (elim disjE conjE exE)
    assume "Failed (fst ?r)"
      and "\<forall>ys. fst (CalculateRailStationCost_loop env m renv north_tile axis rt spec_class
                  spec_index plat_len numtracks (t0 # ys)
                  (CommandCost_ok, True, 0, - 1, station, aff)) = fst ?r"
    then show ?thesis by (simp add: CalculateRailStationCost_def)
  next
    fix acc' ready' tracknum' station' aff'
    assume nf: "\<not> Failed (fst ?r)"
      and go: "\<forall>ys. CalculateRailStationCost_loop env m renv north_tile axis rt spec_class
                  spec_index plat_len numtracks (t0 # ys)
                  (CommandCost_ok, True, 0, - 1, station, aff) =
                CalculateRailStationCost_loop env m renv north_tile axis rt spec_class
                  spec_index plat_len numtracks ys
                  (acc', ready', tracknum', fst (snd ?r), station', aff')"
    from CheckFlatLandRailStation_passed [OF nf]
      CheckBuildableTile_first [of "- 1" env t0 "AxisToDiagDirs renv axis" False True]
    have az: "fst (snd ?r) = flat_z env t0" by simp
    from CalculateRailStationCost_loop_differs [OF assms(3,1,2)] go az
    show ?thesis by (simp add: CalculateRailStationCost_def)
  qed
qed

lemma CalculateRailStationCost_prefix:
  assumes "flat_z env t \<noteq> flat_z env t0" and "0 \<le> flat_z env t0"
    and "\<not> Failed (fst (CalculateRailStationCost env m renv (t0 # pre) north_tile axis station
            rt aff spec_class spec_index plat_len numtracks))"
  shows "fst (CalculateRailStationCost env m renv (t0 # pre @ t # post) north_tile axis station
            rt aff spec_class spec_index plat_len numtracks) =
         fst (CheckBuildableTile env t (AxisToDiagDirs renv axis) (flat_z env t0) False True)"
proof -
  let ?r = "CheckFlatLandRailStation env m renv t0 north_tile (- 1) axis station rt aff
              spec_class spec_index plat_len numtracks"
  from CalculateRailStationCost_loop_step [OF refl, of env m renv t0 north_tile "- 1" axis station rt
      aff spec_class spec_index plat_len numtracks CommandCost_ok True 0]
  show ?thesis
  proof (elim disjE conjE exE)
    assume "Failed (fst ?r)"
      and "\<forall>ys. fst (CalculateRailStationCost_loop env m renv north_tile axis rt spec_class
                  spec_index plat_len numtracks (t0 # ys)
                  (CommandCost_ok, True, 0, - 1, station, aff)) = fst ?r"
    with assms(3) show ?thesis by (simp add: CalculateRailStationCost_def)
  next
    fix acc' ready' tracknum' station' aff'
    assume nf: "\<not> Failed (fst ?r)" and fa: "Failed acc' = Failed CommandCost_ok"
      and go: "\<forall>ys. CalculateRailStationCost_loop env m renv north_tile axis rt spec_class
                  spec_index plat_len numtracks (t0 # ys)
                  (CommandCost_ok, True, 0, - 1, station, aff) =
                CalculateRailStationCost_loop env m renv north_tile axis rt spec_class
                  spec_index plat_len numtracks ys
                  (acc', ready', tracknum', fst (snd ?r), station', aff')"
    from CheckFlatLandRailStation_passed [OF nf]
      CheckBuildableTile_first [of "- 1" env t0 "AxisToDiagDirs renv axis" False True]
    have az: "fst (snd ?r) = flat_z env t0" by simp
    from fa have a: "\<not> Failed acc'" by (simp add: Failed_simps)
    from assms(3) go az
    have b: "\<not> Failed (fst (CalculateRailStationCost_loop env m renv north_tile axis rt
                spec_class spec_index plat_len numtracks pre
                (acc', ready', tracknum', flat_z env t0, station', aff')))"
      by (simp add: CalculateRailStationCost_def)
    from CalculateRailStationCost_loop_prefix [OF assms(2,1) a b] go az
    show ?thesis by (simp add: CalculateRailStationCost_def)
  qed
qed

subsection \<open>The road stop\<close>

lemma CheckFlatLandRoadStop_failed:
  assumes "Failed (fst (CheckBuildableTile env x dirs allowed_z (\<not> is_drive_through) True))"
  shows "fst (CheckFlatLandRoadStop env m denv x allowed_z dirs is_drive_through station_type
                axis est rt) =
         fst (CheckBuildableTile env x dirs allowed_z (\<not> is_drive_through) True)"
  using assms
  by (cases "CheckBuildableTile env x dirs allowed_z (\<not> is_drive_through) True")
    (simp add: CheckFlatLandRoadStop_def Let_def)

lemma CheckFlatLandRoadStop_passed:
  assumes "\<not> Failed (fst (CheckFlatLandRoadStop env m denv x allowed_z dirs is_drive_through
                station_type axis est rt))"
  shows "\<not> Failed (fst (CheckBuildableTile env x dirs allowed_z (\<not> is_drive_through) True))"
    and "fst (snd (CheckFlatLandRoadStop env m denv x allowed_z dirs is_drive_through
                station_type axis est rt)) =
         snd (CheckBuildableTile env x dirs allowed_z (\<not> is_drive_through) True)"
  using assms
  by (auto simp: CheckFlatLandRoadStop_def Let_def split: prod.splits if_splits)

lemma CalculateRoadStopCost_loop_step:
  assumes r_def: "r = CheckFlatLandRoadStop env m denv x allowed_z dirs is_drive_through
                  station_type axis est rt"
  shows "(Failed (fst r) \<and>
          (\<forall>ys. fst (CalculateRoadStopCost_loop env m denv dirs is_drive_through station_type
                  axis rt unit_cost (x # ys) (acc, allowed_z, est)) = fst r)) \<or>
         (\<not> Failed (fst r) \<and>
          (\<exists>acc' est'. Failed acc' = Failed acc \<and>
             (\<forall>ys. CalculateRoadStopCost_loop env m denv dirs is_drive_through station_type
                  axis rt unit_cost (x # ys) (acc, allowed_z, est) =
                CalculateRoadStopCost_loop env m denv dirs is_drive_through station_type
                  axis rt unit_cost ys (acc', fst (snd r), est'))))"
proof -
  let ?r = "CheckFlatLandRoadStop env m denv x allowed_z dirs is_drive_through station_type
              axis est rt"
  obtain ret az st where e: "?r = (ret, az, st)" by (cases ?r) auto
  show ?thesis
  proof (cases "Failed ret")
    case True
    with e show ?thesis unfolding r_def by simp
  next
    case False
    let ?cost1 = "if \<not> (IsTileType m x MP_STATION \<and> IsAnyRoadStop denv x)
                  then AddCost (AddCost acc (cost ret)) unit_cost else acc"
    have f: "Failed ?cost1 = Failed acc" by (simp add: Failed_simps)
    have go: "\<forall>ys. CalculateRoadStopCost_loop env m denv dirs is_drive_through station_type
                  axis rt unit_cost (x # ys) (acc, allowed_z, est) =
                CalculateRoadStopCost_loop env m denv dirs is_drive_through station_type
                  axis rt unit_cost ys (?cost1, az, st)"
      using e False by (simp add: Let_def)
    from e False have nf: "\<not> Failed (fst ?r)" and az: "fst (snd ?r) = az" by simp_all
    from nf f go show ?thesis unfolding r_def az by blast
  qed
qed

lemma CalculateRoadStopCost_loop_differs:
  assumes "0 \<le> allowed_z" and "t \<in> set ts" and "flat_z env t \<noteq> allowed_z"
  shows "Failed (fst (CalculateRoadStopCost_loop env m denv dirs is_drive_through station_type
            axis rt unit_cost ts (acc, allowed_z, est)))"
  using assms(2)
proof (induction ts arbitrary: acc est)
  case Nil
  then show ?case by simp
next
  case (Cons x ts)
  let ?r = "CheckFlatLandRoadStop env m denv x allowed_z dirs is_drive_through station_type
              axis est rt"
  from CalculateRoadStopCost_loop_step [OF refl, of env m denv x allowed_z dirs
      is_drive_through station_type axis est rt unit_cost acc]
  show ?case
  proof (elim disjE conjE exE)
    assume "Failed (fst ?r)"
      and "\<forall>ys. fst (CalculateRoadStopCost_loop env m denv dirs is_drive_through station_type
                  axis rt unit_cost (x # ys) (acc, allowed_z, est)) = fst ?r"
    then show ?thesis by simp
  next
    fix acc' est'
    assume nf: "\<not> Failed (fst ?r)"
      and go: "\<forall>ys. CalculateRoadStopCost_loop env m denv dirs is_drive_through station_type
                  axis rt unit_cost (x # ys) (acc, allowed_z, est) =
                CalculateRoadStopCost_loop env m denv dirs is_drive_through station_type
                  axis rt unit_cost ys (acc', fst (snd ?r), est')"
    from CheckFlatLandRoadStop_passed [OF nf]
      CheckBuildableTile_later [OF assms(1), of env x dirs "\<not> is_drive_through" True]
    have az: "fst (snd ?r) = allowed_z" and fz: "flat_z env x = allowed_z" by simp_all
    with Cons.prems assms(3) have "t \<in> set ts" by auto
    from Cons.IH [OF this] go az show ?thesis by simp
  qed
qed

lemma CalculateRoadStopCost_loop_prefix:
  assumes "0 \<le> allowed_z" and "flat_z env t \<noteq> allowed_z"
    and "\<not> Failed acc"
    and "\<not> Failed (fst (CalculateRoadStopCost_loop env m denv dirs is_drive_through
            station_type axis rt unit_cost pre (acc, allowed_z, est)))"
  shows "fst (CalculateRoadStopCost_loop env m denv dirs is_drive_through station_type axis rt
            unit_cost (pre @ t # post) (acc, allowed_z, est)) =
         fst (CheckBuildableTile env t dirs allowed_z (\<not> is_drive_through) True)"
  using assms(3,4)
proof (induction pre arbitrary: acc est)
  case Nil
  let ?r = "CheckFlatLandRoadStop env m denv t allowed_z dirs is_drive_through station_type
              axis est rt"
  from CheckBuildableTile_differs_Failed [OF assms(1,2)]
  have f: "Failed (fst (CheckBuildableTile env t dirs allowed_z (\<not> is_drive_through) True))" .
  from CheckFlatLandRoadStop_failed [OF f] f
  have "Failed (fst ?r)"
    and "fst ?r = fst (CheckBuildableTile env t dirs allowed_z (\<not> is_drive_through) True)"
    by simp_all
  with CalculateRoadStopCost_loop_step [OF refl, of env m denv t allowed_z dirs
      is_drive_through station_type axis est rt unit_cost acc]
  show ?case by auto
next
  case (Cons x pre)
  let ?r = "CheckFlatLandRoadStop env m denv x allowed_z dirs is_drive_through station_type
              axis est rt"
  from CalculateRoadStopCost_loop_step [OF refl, of env m denv x allowed_z dirs
      is_drive_through station_type axis est rt unit_cost acc]
  show ?case
  proof (elim disjE conjE exE)
    assume "Failed (fst ?r)"
      and "\<forall>ys. fst (CalculateRoadStopCost_loop env m denv dirs is_drive_through station_type
                  axis rt unit_cost (x # ys) (acc, allowed_z, est)) = fst ?r"
    with Cons.prems(2) show ?thesis by simp
  next
    fix acc' est'
    assume nf: "\<not> Failed (fst ?r)" and fa: "Failed acc' = Failed acc"
      and go: "\<forall>ys. CalculateRoadStopCost_loop env m denv dirs is_drive_through station_type
                  axis rt unit_cost (x # ys) (acc, allowed_z, est) =
                CalculateRoadStopCost_loop env m denv dirs is_drive_through station_type
                  axis rt unit_cost ys (acc', fst (snd ?r), est')"
    from CheckFlatLandRoadStop_passed [OF nf]
      CheckBuildableTile_later(1) [OF assms(1), of env x dirs "\<not> is_drive_through" True]
    have az: "fst (snd ?r) = allowed_z" by simp
    from fa Cons.prems(1) have a: "\<not> Failed acc'" by simp
    from Cons.prems(2) go az
    have b: "\<not> Failed (fst (CalculateRoadStopCost_loop env m denv dirs is_drive_through
                station_type axis rt unit_cost pre (acc', allowed_z, est')))" by simp
    from Cons.IH [OF a b] go az show ?thesis by simp
  qed
qed

lemma CalculateRoadStopCost_differs:
  assumes "t \<in> set ts" and "flat_z env t \<noteq> flat_z env t0" and "0 \<le> flat_z env t0"
  shows "Failed (fst (CalculateRoadStopCost env m denv (t0 # ts) is_drive_through station_type
            axis ddir est rt unit_cost))"
proof -
  let ?dirs = "road_invalid_dirs denv is_drive_through axis ddir"
  let ?r = "CheckFlatLandRoadStop env m denv t0 (- 1) ?dirs is_drive_through station_type
              axis est rt"
  from CalculateRoadStopCost_loop_step [OF refl, of env m denv t0 "- 1" ?dirs
      is_drive_through station_type axis est rt unit_cost CommandCost_ok]
  show ?thesis
  proof (elim disjE conjE exE)
    assume "Failed (fst ?r)"
      and "\<forall>ys. fst (CalculateRoadStopCost_loop env m denv ?dirs is_drive_through station_type
                  axis rt unit_cost (t0 # ys) (CommandCost_ok, - 1, est)) = fst ?r"
    then show ?thesis by (simp add: CalculateRoadStopCost_def)
  next
    fix acc' est'
    assume nf: "\<not> Failed (fst ?r)"
      and go: "\<forall>ys. CalculateRoadStopCost_loop env m denv ?dirs is_drive_through station_type
                  axis rt unit_cost (t0 # ys) (CommandCost_ok, - 1, est) =
                CalculateRoadStopCost_loop env m denv ?dirs is_drive_through station_type
                  axis rt unit_cost ys (acc', fst (snd ?r), est')"
    from CheckFlatLandRoadStop_passed [OF nf]
      CheckBuildableTile_first [of "- 1" env t0 ?dirs "\<not> is_drive_through" True]
    have az: "fst (snd ?r) = flat_z env t0" by simp
    from CalculateRoadStopCost_loop_differs [OF assms(3,1,2)] go az
    show ?thesis by (simp add: CalculateRoadStopCost_def)
  qed
qed

lemma CalculateRoadStopCost_prefix:
  assumes "flat_z env t \<noteq> flat_z env t0" and "0 \<le> flat_z env t0"
    and "\<not> Failed (fst (CalculateRoadStopCost env m denv (t0 # pre) is_drive_through
            station_type axis ddir est rt unit_cost))"
  shows "fst (CalculateRoadStopCost env m denv (t0 # pre @ t # post) is_drive_through
            station_type axis ddir est rt unit_cost) =
         fst (CheckBuildableTile env t (road_invalid_dirs denv is_drive_through axis ddir)
                (flat_z env t0) (\<not> is_drive_through) True)"
proof -
  let ?dirs = "road_invalid_dirs denv is_drive_through axis ddir"
  let ?r = "CheckFlatLandRoadStop env m denv t0 (- 1) ?dirs is_drive_through station_type
              axis est rt"
  from CalculateRoadStopCost_loop_step [OF refl, of env m denv t0 "- 1" ?dirs
      is_drive_through station_type axis est rt unit_cost CommandCost_ok]
  show ?thesis
  proof (elim disjE conjE exE)
    assume "Failed (fst ?r)"
      and "\<forall>ys. fst (CalculateRoadStopCost_loop env m denv ?dirs is_drive_through station_type
                  axis rt unit_cost (t0 # ys) (CommandCost_ok, - 1, est)) = fst ?r"
    with assms(3) show ?thesis by (simp add: CalculateRoadStopCost_def)
  next
    fix acc' est'
    assume nf: "\<not> Failed (fst ?r)" and fa: "Failed acc' = Failed CommandCost_ok"
      and go: "\<forall>ys. CalculateRoadStopCost_loop env m denv ?dirs is_drive_through station_type
                  axis rt unit_cost (t0 # ys) (CommandCost_ok, - 1, est) =
                CalculateRoadStopCost_loop env m denv ?dirs is_drive_through station_type
                  axis rt unit_cost ys (acc', fst (snd ?r), est')"
    from CheckFlatLandRoadStop_passed [OF nf]
      CheckBuildableTile_first [of "- 1" env t0 ?dirs "\<not> is_drive_through" True]
    have az: "fst (snd ?r) = flat_z env t0" by simp
    from fa have a: "\<not> Failed acc'" by (simp add: Failed_simps)
    from assms(3) go az
    have b: "\<not> Failed (fst (CalculateRoadStopCost_loop env m denv ?dirs is_drive_through
                station_type axis rt unit_cost pre (acc', flat_z env t0, est')))"
      by (simp add: CalculateRoadStopCost_def)
    from CalculateRoadStopCost_loop_prefix [OF assms(2,1) a b] go az
    show ?thesis by (simp add: CalculateRoadStopCost_def)
  qed
qed

lemma CheckBuildableTile_keeps_allowed_z:
  assumes "0 \<le> allowed_z"
  shows "snd (CheckBuildableTile env t dirs allowed_z steep cb) = allowed_z"
  using assms
  by (auto simp: CheckBuildableTile_def Let_def split: if_splits prod.splits)

text \<open>
  Claim C6, as amended. In each of the three builds that check a footprint of tiles
  (\<^verbatim>\<open>CheckFlatLandAirport\<close>, \<^verbatim>\<open>CalculateRailStationCost\<close> and
  \<^verbatim>\<open>CalculateRoadStopCost\<close>, whose failure the build command returns as it is) the first
  tile checked fixes its height with foundation as the height required of the whole
  footprint (heights are not negative; a negative \<^verbatim>\<open>allowed_z\<close> means that no tile has
  been checked). A later tile whose height with foundation differs makes the command fail.
  The check of that tile fails and leaves the required height as it is; it returns "must
  demolish bridge first" when the tile has a bridge above it, else the error of the vehicle
  check when a vehicle is on the tile, else "flat land required". When the tiles before
  that tile pass their checks, that is, when the command succeeds on the footprint that
  ends before it, the command returns the error of that tile's check.
\<close>

theorem flat_land_required:
  assumes "t \<in> set ts" and "flat_z env t \<noteq> flat_z env t0" and "0 \<le> flat_z env t0"
  shows
    "(Failed (CheckFlatLandAirport env (t0 # ts)) \<and>
      Failed (fst (CalculateRailStationCost env m renv (t0 # ts) north_tile axis station rt aff
                     spec_class spec_index plat_len numtracks)) \<and>
      Failed (fst (CalculateRoadStopCost env m denv (t0 # ts) is_drive_through station_type
                     axis ddir est road_rt unit_cost))) \<and>
     (\<not> Failed (fst (CheckBuildableTile env t0 dirs (- 1) steep cb)) \<longrightarrow>
        snd (CheckBuildableTile env t0 dirs (- 1) steep cb) = flat_z env t0) \<and>
     (Failed (fst (CheckBuildableTile env t dirs (flat_z env t0) steep cb)) \<and>
      snd (CheckBuildableTile env t dirs (flat_z env t0) steep cb) = flat_z env t0 \<and>
      (cb \<and> IsBridgeAbove env t \<longrightarrow>
         fst (CheckBuildableTile env t dirs (flat_z env t0) steep cb) =
           CommandCost_error STR_ERROR_MUST_DEMOLISH_BRIDGE_FIRST) \<and>
      (\<not> (cb \<and> IsBridgeAbove env t) \<and> Failed (EnsureNoVehicleOnGround env t) \<longrightarrow>
         fst (CheckBuildableTile env t dirs (flat_z env t0) steep cb) =
           EnsureNoVehicleOnGround env t) \<and>
      (\<not> (cb \<and> IsBridgeAbove env t) \<and> \<not> Failed (EnsureNoVehicleOnGround env t) \<longrightarrow>
         fst (CheckBuildableTile env t dirs (flat_z env t0) steep cb) =
           CommandCost_error STR_ERROR_FLAT_LAND_REQUIRED)) \<and>
     (\<forall>pre post. ts = pre @ t # post \<longrightarrow>
        (\<not> Failed (CheckFlatLandAirport env (t0 # pre)) \<longrightarrow>
           CheckFlatLandAirport env (t0 # ts) =
             fst (CheckBuildableTile env t {} (flat_z env t0) True True)) \<and>
        (\<not> Failed (fst (CalculateRailStationCost env m renv (t0 # pre) north_tile axis station
                         rt aff spec_class spec_index plat_len numtracks)) \<longrightarrow>
           fst (CalculateRailStationCost env m renv (t0 # ts) north_tile axis station rt aff
                  spec_class spec_index plat_len numtracks) =
             fst (CheckBuildableTile env t (AxisToDiagDirs renv axis) (flat_z env t0)
                    False True)) \<and>
        (\<not> Failed (fst (CalculateRoadStopCost env m denv (t0 # pre) is_drive_through
                         station_type axis ddir est road_rt unit_cost)) \<longrightarrow>
           fst (CalculateRoadStopCost env m denv (t0 # ts) is_drive_through station_type axis
                  ddir est road_rt unit_cost) =
             fst (CheckBuildableTile env t (road_invalid_dirs denv is_drive_through axis ddir)
                    (flat_z env t0) (\<not> is_drive_through) True)))"
proof (intro conjI impI allI)
  show "Failed (CheckFlatLandAirport env (t0 # ts))"
    by (rule CheckFlatLandAirport_differs [OF assms])
  show "Failed (fst (CalculateRailStationCost env m renv (t0 # ts) north_tile axis station rt aff
                     spec_class spec_index plat_len numtracks))"
    by (rule CalculateRailStationCost_differs [OF assms])
  show "Failed (fst (CalculateRoadStopCost env m denv (t0 # ts) is_drive_through station_type
                     axis ddir est road_rt unit_cost))"
    by (rule CalculateRoadStopCost_differs [OF assms])
  show "Failed (fst (CheckBuildableTile env t dirs (flat_z env t0) steep cb))"
    by (rule CheckBuildableTile_differs_Failed [OF assms(3,2)])
  show "snd (CheckBuildableTile env t dirs (flat_z env t0) steep cb) = flat_z env t0"
    by (rule CheckBuildableTile_keeps_allowed_z [OF assms(3)])
next
  assume "\<not> Failed (fst (CheckBuildableTile env t0 dirs (- 1) steep cb))"
  then show "snd (CheckBuildableTile env t0 dirs (- 1) steep cb) = flat_z env t0"
    by (intro CheckBuildableTile_first) simp_all
next
  assume "cb \<and> IsBridgeAbove env t"
  then show "fst (CheckBuildableTile env t dirs (flat_z env t0) steep cb) =
             CommandCost_error STR_ERROR_MUST_DEMOLISH_BRIDGE_FIRST"
    by (simp add: CheckBuildableTile_bridge)
next
  assume "\<not> (cb \<and> IsBridgeAbove env t) \<and> Failed (EnsureNoVehicleOnGround env t)"
  then show "fst (CheckBuildableTile env t dirs (flat_z env t0) steep cb) =
             EnsureNoVehicleOnGround env t"
    by (simp add: CheckBuildableTile_vehicle)
next
  assume "\<not> (cb \<and> IsBridgeAbove env t) \<and> \<not> Failed (EnsureNoVehicleOnGround env t)"
  with CheckBuildableTile_differs [OF assms(3,2), of cb dirs steep]
  show "fst (CheckBuildableTile env t dirs (flat_z env t0) steep cb) =
        CommandCost_error STR_ERROR_FLAT_LAND_REQUIRED"
    by simp
next
  fix pre post
  assume "ts = pre @ t # post" and "\<not> Failed (CheckFlatLandAirport env (t0 # pre))"
  with CheckFlatLandAirport_prefix [OF assms(2,3), of pre post]
  show "CheckFlatLandAirport env (t0 # ts) =
        fst (CheckBuildableTile env t {} (flat_z env t0) True True)"
    by simp
next
  fix pre post
  assume "ts = pre @ t # post"
    and "\<not> Failed (fst (CalculateRailStationCost env m renv (t0 # pre) north_tile axis station
                         rt aff spec_class spec_index plat_len numtracks))"
  with CalculateRailStationCost_prefix [OF assms(2,3), of m renv pre north_tile axis station
      rt aff spec_class spec_index plat_len numtracks post]
  show "fst (CalculateRailStationCost env m renv (t0 # ts) north_tile axis station rt aff
               spec_class spec_index plat_len numtracks) =
        fst (CheckBuildableTile env t (AxisToDiagDirs renv axis) (flat_z env t0) False True)"
    by simp
next
  fix pre post
  assume "ts = pre @ t # post"
    and "\<not> Failed (fst (CalculateRoadStopCost env m denv (t0 # pre) is_drive_through
                         station_type axis ddir est road_rt unit_cost))"
  with CalculateRoadStopCost_prefix [OF assms(2,3), of m denv pre is_drive_through
      station_type axis ddir est road_rt unit_cost post]
  show "fst (CalculateRoadStopCost env m denv (t0 # ts) is_drive_through station_type axis
               ddir est road_rt unit_cost) =
        fst (CheckBuildableTile env t (road_invalid_dirs denv is_drive_through axis ddir)
               (flat_z env t0) (\<not> is_drive_through) True)"
    by simp
qed

text \<open>
  The claim as stated fails for a later tile that has a bridge above it: the command
  fails with "must demolish bridge first", because the bridge is checked before the
  height.
\<close>

theorem flat_land_required_counterexample:
  "CheckFlatLandAirport bridge_env [0, 1] = CommandCost_error STR_ERROR_MUST_DEMOLISH_BRIDGE_FIRST \<and>
   flat_z bridge_env 0 = 1 \<and> flat_z bridge_env 1 = 2 \<and>
   STR_ERROR_MUST_DEMOLISH_BRIDGE_FIRST \<noteq> STR_ERROR_FLAT_LAND_REQUIRED"
  by (simp add: Failed_simps CheckFlatLandAirport_def CheckBuildableTile_def bridge_env_def flat_z_def Let_def)

theorem flat_land_required_witness:
  "(1 :: nat) \<in> set [1] \<and> flat_z level_env 1 \<noteq> flat_z level_env 0 \<and> 0 \<le> flat_z level_env 0 \<and>
   \<not> Failed (CheckFlatLandAirport level_env [0]) \<and>
   \<not> Failed (fst (CalculateRailStationCost level_env bare_map bare_rail [0] 0 AXIS_X
                   (Some StationID_Invalid) 0 [] 0 0 1 2)) \<and>
   \<not> Failed (fst (CalculateRoadStopCost level_env bare_map bare_road [0] False 0 AXIS_X
                   DIAGDIR_NE (Some StationID_Invalid) 0 30)) \<and>
   CheckFlatLandAirport level_env [0, 1] = CommandCost_error STR_ERROR_FLAT_LAND_REQUIRED \<and>
   fst (CalculateRailStationCost level_env bare_map bare_rail [0, 1] 0 AXIS_X
          (Some StationID_Invalid) 0 [] 0 0 1 2) =
     CommandCost_error STR_ERROR_FLAT_LAND_REQUIRED \<and>
   fst (CalculateRoadStopCost level_env bare_map bare_road [0, 1] False 0 AXIS_X DIAGDIR_NE
          (Some StationID_Invalid) 0 30) =
     CommandCost_error STR_ERROR_FLAT_LAND_REQUIRED"
proof -
  have a: "(1 :: nat) \<in> set [1]" by simp
  have b: "flat_z level_env 1 \<noteq> flat_z level_env 0" and c: "0 \<le> flat_z level_env 0"
    by (simp_all add: level_env_def bridge_env_def flat_z_def)
  have nb: "\<not> IsBridgeAbove level_env 1"
    and nv: "\<not> Failed (EnsureNoVehicleOnGround level_env 1)"
    by (simp_all add: level_env_def bridge_env_def Failed_simps)
  have t0: "\<And>dirs steep. CheckBuildableTile level_env 0 dirs (- 1) steep True = (CommandCost_ok, 1)"
    by (simp add: CheckBuildableTile_def level_env_def bridge_env_def Failed_simps Let_def)
  have cl: "LandscapeClear level_env 0 = CommandCost_ok"
    by (simp add: level_env_def bridge_env_def)
  have pa: "\<not> Failed (CheckFlatLandAirport level_env [0])"
    by (simp add: CheckFlatLandAirport_def t0 cl Failed_simps)
  have pr: "\<not> Failed (fst (CalculateRailStationCost level_env bare_map bare_rail [0] 0 AXIS_X
                   (Some StationID_Invalid) 0 [] 0 0 1 2))"
    by (simp add: CalculateRailStationCost_def CheckFlatLandRailStation_def
        CheckFlatLandRailStation_tile_def t0 cl Failed_simps bare_rail_def bare_map_def
        IsTileType_def Let_def)
  have pd: "\<not> Failed (fst (CalculateRoadStopCost level_env bare_map bare_road [0] False 0 AXIS_X
                   DIAGDIR_NE (Some StationID_Invalid) 0 30))"
    by (simp add: CalculateRoadStopCost_def CheckFlatLandRoadStop_def
        CheckFlatLandRoadStop_tile_def t0 cl Failed_simps bare_road_def bare_map_def
        IsTileType_def Let_def)
  note th = flat_land_required [OF a b c, of bare_map bare_rail 0 AXIS_X
      "Some StationID_Invalid" 0 "[]" 0 0 1 2 bare_road False 0 DIAGDIR_NE
      "Some StationID_Invalid" 0 30 _ _ True]
  from th [of "{}" True] nb nv
  have f1: "fst (CheckBuildableTile level_env 1 {} (flat_z level_env 0) True True) =
            CommandCost_error STR_ERROR_FLAT_LAND_REQUIRED" by blast
  from th [of "AxisToDiagDirs bare_rail AXIS_X" False] nb nv
  have f2: "fst (CheckBuildableTile level_env 1 (AxisToDiagDirs bare_rail AXIS_X)
                   (flat_z level_env 0) False True) =
            CommandCost_error STR_ERROR_FLAT_LAND_REQUIRED" by blast
  from th [of "road_invalid_dirs bare_road False AXIS_X DIAGDIR_NE" True] nb nv
  have f3: "fst (CheckBuildableTile level_env 1 (road_invalid_dirs bare_road False AXIS_X DIAGDIR_NE)
                   (flat_z level_env 0) (\<not> False) True) =
            CommandCost_error STR_ERROR_FLAT_LAND_REQUIRED" by simp
  have e: "[1 :: nat] = [] @ 1 # []" by simp
  from th [of "{}" True] e pa f1
  have g1: "CheckFlatLandAirport level_env [0, 1] = CommandCost_error STR_ERROR_FLAT_LAND_REQUIRED"
    by metis
  from th [of "{}" True] e pr f2
  have g2: "fst (CalculateRailStationCost level_env bare_map bare_rail [0, 1] 0 AXIS_X
          (Some StationID_Invalid) 0 [] 0 0 1 2) =
     CommandCost_error STR_ERROR_FLAT_LAND_REQUIRED"
    by metis
  from th [of "{}" True] e pd f3
  have g3: "fst (CalculateRoadStopCost level_env bare_map bare_road [0, 1] False 0 AXIS_X DIAGDIR_NE
          (Some StationID_Invalid) 0 30) =
     CommandCost_error STR_ERROR_FLAT_LAND_REQUIRED"
    by metis
  from a b c pa pr pd g1 g2 g3 show ?thesis by blast
qed


section \<open>Properties of the search for a station to join\<close>

lemma stations_around_Nil [simp]: "stations_around m pool company f [] = {}"
  by (simp add: stations_around_def)

lemma stations_around_Cons:
  "stations_around m pool company f (t # ts) =
     (if IsTileType m t MP_STATION \<and> station_matches pool company f (GetStationIndex m t)
      then insert (GetStationIndex m t) (stations_around m pool company f ts)
      else stations_around m pool company f ts)"
  by (simp add: stations_around_def)

lemma GetStationAround_loop_joined:
  assumes "closest \<noteq> StationID_Invalid"
  shows "GetStationAround_loop m pool company f ts closest =
     (if stations_around m pool company f ts \<subseteq> {closest} then Inr closest
      else Inl (CommandCost_error STR_ERROR_ADJOINS_MORE_THAN_ONE_EXISTING))"
proof (induction ts)
  case Nil
  then show ?case by simp
next
  case (Cons t ts)
  show ?case
  proof (cases "IsTileType m t MP_STATION \<and> station_matches pool company f (GetStationIndex m t)")
    case False
    with Cons.IH show ?thesis by (auto simp: stations_around_Cons Let_def)
  next
    case True
    show ?thesis
    proof (cases "closest = GetStationIndex m t")
      case same: True
      with True Cons.IH assms show ?thesis by (simp add: stations_around_Cons Let_def)
    next
      case other: False
      with True assms show ?thesis by (auto simp: stations_around_Cons Let_def)
    qed
  qed
qed

lemma GetStationAround_loop_fresh:
  assumes "\<not> station_matches pool company f StationID_Invalid"
  shows "GetStationAround_loop m pool company f ts StationID_Invalid =
     (if stations_around m pool company f ts = {} then Inr StationID_Invalid
      else if \<exists>s. stations_around m pool company f ts = {s}
      then Inr (the_elem (stations_around m pool company f ts))
      else Inl (CommandCost_error STR_ERROR_ADJOINS_MORE_THAN_ONE_EXISTING))"
proof (induction ts)
  case Nil
  then show ?case by simp
next
  case (Cons t ts)
  let ?S = "stations_around m pool company f ts"
  show ?case
  proof (cases "IsTileType m t MP_STATION \<and> station_matches pool company f (GetStationIndex m t)")
    case False
    with Cons.IH show ?thesis by (auto simp: stations_around_Cons Let_def)
  next
    case True
    let ?t = "GetStationIndex m t"
    from True assms have ne: "?t \<noteq> StationID_Invalid" by auto
    have S: "stations_around m pool company f (t # ts) = insert ?t ?S"
      using True by (simp add: stations_around_Cons)
    have step: "GetStationAround_loop m pool company f (t # ts) StationID_Invalid =
                GetStationAround_loop m pool company f ts ?t"
      using True by (simp add: Let_def)
    show ?thesis
    proof (cases "?S \<subseteq> {?t}")
      case sub: True
      then have eq: "insert ?t ?S = {?t}" by auto
      from sub show ?thesis
        unfolding step S GetStationAround_loop_joined [OF ne] by (simp add: eq)
    next
      case nsub: False
      then have "\<not> (\<exists>s. insert ?t ?S = {s})" by auto
      with nsub show ?thesis
        unfolding step S GetStationAround_loop_joined [OF ne] by simp
    qed
  qed
qed

text \<open>
  Claim C7. Without a station to build over, without a station to join and without the
  wish to build an adjacent station, \<^verbatim>\<open>FindJoiningBaseStation\<close> scans the area expanded
  by one tile. When the scan meets two different stations of the company that pass the
  filter, the result is the error "adjoins more than one existing station" and no
  station; the functions only read the map and the pool. With no such station the result
  is success and no station, so that a new one may be made; with exactly one it is that
  station.
\<close>

theorem adjoining_stations:
  assumes "pool StationID_Invalid = None"
  shows "let around = stations_around m pool company f (TileIterator ops (Expand ops ta 1));
             result = FindJoiningBaseStation m pool ops company error_message
                        StationID_Invalid StationID_Invalid False ta f
         in ((\<exists>a \<in> around. \<exists>b \<in> around. a \<noteq> b) \<longrightarrow>
               result = (CommandCost_error STR_ERROR_ADJOINS_MORE_THAN_ONE_EXISTING, None)) \<and>
            (around = {} \<longrightarrow> result = (CommandCost_ok, None)) \<and>
            (\<forall>s. around = {s} \<longrightarrow> result = (CommandCost_ok, Some s))"
proof -
  let ?S = "stations_around m pool company f (TileIterator ops (Expand ops ta 1))"
  from assms have nm: "\<not> station_matches pool company f StationID_Invalid"
    by (simp add: station_matches_def)
  have inv: "StationID_Invalid \<notin> ?S"
    using nm by (auto simp: stations_around_def)
  note loop = GetStationAround_loop_fresh [OF nm, of m "TileIterator ops (Expand ops ta 1)"]
  have f: "Failed (CommandCost_error STR_ERROR_ADJOINS_MORE_THAN_ONE_EXISTING)"
    and nf: "\<not> Failed CommandCost_ok"
    by (simp_all add: Failed_def CommandCost_error_def CommandCost_ok_def)
  have two: "(\<exists>a \<in> ?S. \<exists>b \<in> ?S. a \<noteq> b) \<longrightarrow>
      FindJoiningBaseStation m pool ops company error_message
          StationID_Invalid StationID_Invalid False ta f
        = (CommandCost_error STR_ERROR_ADJOINS_MORE_THAN_ONE_EXISTING, None)"
  proof
    assume "\<exists>a \<in> ?S. \<exists>b \<in> ?S. a \<noteq> b"
    then have "?S \<noteq> {}" and "\<not> (\<exists>s. ?S = {s})" by auto
    with loop f show "FindJoiningBaseStation m pool ops company error_message
          StationID_Invalid StationID_Invalid False ta f
        = (CommandCost_error STR_ERROR_ADJOINS_MORE_THAN_ONE_EXISTING, None)"
      by (simp add: FindJoiningBaseStation_def GetStationAround_def Let_def)
  qed
  have none: "?S = {} \<longrightarrow>
      FindJoiningBaseStation m pool ops company error_message
          StationID_Invalid StationID_Invalid False ta f = (CommandCost_ok, None)"
    using loop nf by (simp add: FindJoiningBaseStation_def GetStationAround_def Let_def)
  have one: "\<forall>s. ?S = {s} \<longrightarrow>
      FindJoiningBaseStation m pool ops company error_message
          StationID_Invalid StationID_Invalid False ta f = (CommandCost_ok, Some s)"
  proof (intro allI impI)
    fix s assume s: "?S = {s}"
    with inv have "s \<noteq> StationID_Invalid" by auto
    with s loop nf show "FindJoiningBaseStation m pool ops company error_message
          StationID_Invalid StationID_Invalid False ta f = (CommandCost_ok, Some s)"
      by (simp add: FindJoiningBaseStation_def GetStationAround_def Let_def)
  qed
  from two none one show ?thesis by (simp add: Let_def)
qed


theorem adjoining_stations_witness:
  "strip_pool StationID_Invalid = None \<and>
   stations_around strip_map strip_pool 1 any_station
     (TileIterator strip_ops (Expand strip_ops \<lparr>tile = 1, w = 1, h = 1\<rparr> 1)) = {5, 6} \<and>
   FindJoiningBaseStation strip_map strip_pool strip_ops 1 (STR_OTHER 0)
     StationID_Invalid StationID_Invalid False \<lparr>tile = 1, w = 1, h = 1\<rparr> any_station
     = (CommandCost_error STR_ERROR_ADJOINS_MORE_THAN_ONE_EXISTING, None)"
proof -
  have p: "strip_pool StationID_Invalid = None"
    by (simp add: strip_pool_def StationID_Invalid_def)
  have t: "TileIterator strip_ops (Expand strip_ops \<lparr>tile = 1, w = 1, h = 1\<rparr> 1) = [0, 1, 2]"
    by (simp add: strip_ops_def upt_rec)
  have a: "stations_around strip_map strip_pool 1 any_station
     (TileIterator strip_ops (Expand strip_ops \<lparr>tile = 1, w = 1, h = 1\<rparr> 1)) = {5, 6}"
    unfolding t
    by (simp add: stations_around_def strip_map_def strip_pool_def strip_station_def
        station_matches_def any_station_def IsTileType_def)
  have two: "\<exists>a \<in> {5, 6 :: StationID}. \<exists>b \<in> {5, 6}. a \<noteq> b"
    by (rule bexI [of _ 5], rule bexI [of _ 6]) simp_all
  from adjoining_stations [where pool = strip_pool and m = strip_map and company = 1
      and f = any_station and ops = strip_ops and ta = "\<lparr>tile = 1, w = 1, h = 1\<rparr>"
      and error_message = "STR_OTHER 0", OF p] two
  have "FindJoiningBaseStation strip_map strip_pool strip_ops 1 (STR_OTHER 0)
     StationID_Invalid StationID_Invalid False \<lparr>tile = 1, w = 1, h = 1\<rparr> any_station
     = (CommandCost_error STR_ERROR_ADJOINS_MORE_THAN_ONE_EXISTING, None)"
    unfolding a Let_def by blast
  with p a show ?thesis by simp
qed


section \<open>Properties of the shrinking of a station area\<close>

lemma shrunk_ok_step:
  assumes "shrunk_ok D func ta' r"
    and "\<forall>t \<in> area_tiles D ta. func t \<longrightarrow> t \<in> area_tiles D ta'"
    and "area_tiles D ta' \<subseteq> area_tiles D ta"
  shows "shrunk_ok D func ta r"
  using assms unfolding shrunk_ok_def by blast

lemma left_side:
  assumes lin: "TileDiffXY_linear D"
    and none: "\<not> (\<exists>i \<in> {0..<h ta}. func (tile ta + D 0 i))"
  shows "\<forall>t \<in> area_tiles D ta. func t \<longrightarrow>
           t \<in> area_tiles D (ta\<lparr>tile := tile ta + D 1 0, w := w ta - 1\<rparr>)"
    and "area_tiles D (ta\<lparr>tile := tile ta + D 1 0, w := w ta - 1\<rparr>) \<subseteq> area_tiles D ta"
proof -
  from lin have s: "\<And>i j. D (Suc i) j = D 1 0 + D i j"
    unfolding TileDiffXY_linear_def by blast
  show "\<forall>t \<in> area_tiles D ta. func t \<longrightarrow>
           t \<in> area_tiles D (ta\<lparr>tile := tile ta + D 1 0, w := w ta - 1\<rparr>)"
  proof (intro ballI impI)
    fix t assume "t \<in> area_tiles D ta" and f: "func t"
    then obtain i j where t: "t = tile ta + D i j" and i: "i < w ta" and j: "j < h ta"
      by (auto simp: area_tiles_def)
    have "i \<noteq> 0"
    proof
      assume "i = 0"
      with f t have "func (tile ta + D 0 j)" by simp
      with none j show False by auto
    qed
    then obtain i' where i': "i = Suc i'" by (cases i) auto
    with t s [of i' j] have "t = tile ta + D 1 0 + D i' j" by simp
    moreover from i i' have "i' < w ta - 1" by simp
    ultimately show "t \<in> area_tiles D (ta\<lparr>tile := tile ta + D 1 0, w := w ta - 1\<rparr>)"
      using j by (auto simp: area_tiles_def)
  qed
  show "area_tiles D (ta\<lparr>tile := tile ta + D 1 0, w := w ta - 1\<rparr>) \<subseteq> area_tiles D ta"
  proof
    fix t assume "t \<in> area_tiles D (ta\<lparr>tile := tile ta + D 1 0, w := w ta - 1\<rparr>)"
    then obtain i j where t: "t = tile ta + D 1 0 + D i j" and i: "i < w ta - 1" and j: "j < h ta"
      by (auto simp: area_tiles_def)
    from t s [of i j] have "t = tile ta + D (Suc i) j" by simp
    moreover from i have "Suc i < w ta" by simp
    ultimately show "t \<in> area_tiles D ta" using j unfolding area_tiles_def by blast
  qed
qed

lemma upper_side:
  assumes lin: "TileDiffXY_linear D"
    and none: "\<not> (\<exists>i \<in> {0..<w ta}. func (tile ta + D i 0))"
  shows "\<forall>t \<in> area_tiles D ta. func t \<longrightarrow>
           t \<in> area_tiles D (ta\<lparr>tile := tile ta + D 0 1, h := h ta - 1\<rparr>)"
    and "area_tiles D (ta\<lparr>tile := tile ta + D 0 1, h := h ta - 1\<rparr>) \<subseteq> area_tiles D ta"
proof -
  from lin have s: "\<And>i j. D i (Suc j) = D 0 1 + D i j"
    unfolding TileDiffXY_linear_def by blast
  show "\<forall>t \<in> area_tiles D ta. func t \<longrightarrow>
           t \<in> area_tiles D (ta\<lparr>tile := tile ta + D 0 1, h := h ta - 1\<rparr>)"
  proof (intro ballI impI)
    fix t assume "t \<in> area_tiles D ta" and f: "func t"
    then obtain i j where t: "t = tile ta + D i j" and i: "i < w ta" and j: "j < h ta"
      by (auto simp: area_tiles_def)
    have "j \<noteq> 0"
    proof
      assume "j = 0"
      with f t have "func (tile ta + D i 0)" by simp
      with none i show False by auto
    qed
    then obtain j' where j': "j = Suc j'" by (cases j) auto
    with t s [of i j'] have "t = tile ta + D 0 1 + D i j'" by simp
    moreover from j j' have "j' < h ta - 1" by simp
    ultimately show "t \<in> area_tiles D (ta\<lparr>tile := tile ta + D 0 1, h := h ta - 1\<rparr>)"
      using i by (auto simp: area_tiles_def)
  qed
  show "area_tiles D (ta\<lparr>tile := tile ta + D 0 1, h := h ta - 1\<rparr>) \<subseteq> area_tiles D ta"
  proof
    fix t assume "t \<in> area_tiles D (ta\<lparr>tile := tile ta + D 0 1, h := h ta - 1\<rparr>)"
    then obtain i j where t: "t = tile ta + D 0 1 + D i j" and i: "i < w ta" and j: "j < h ta - 1"
      by (auto simp: area_tiles_def)
    from t s [of i j] have "t = tile ta + D i (Suc j)" by simp
    moreover from j have "Suc j < h ta" by simp
    ultimately show "t \<in> area_tiles D ta" using i unfolding area_tiles_def by blast
  qed
qed

lemma right_side:
  assumes none: "\<not> (\<exists>i \<in> {0..<h ta}. func (tile ta + D (w ta - 1) i))"
  shows "\<forall>t \<in> area_tiles D ta. func t \<longrightarrow> t \<in> area_tiles D (ta\<lparr>w := w ta - 1\<rparr>)"
    and "area_tiles D (ta\<lparr>w := w ta - 1\<rparr>) \<subseteq> area_tiles D ta"
proof -
  show "\<forall>t \<in> area_tiles D ta. func t \<longrightarrow> t \<in> area_tiles D (ta\<lparr>w := w ta - 1\<rparr>)"
  proof (intro ballI impI)
    fix t assume "t \<in> area_tiles D ta" and f: "func t"
    then obtain i j where t: "t = tile ta + D i j" and i: "i < w ta" and j: "j < h ta"
      by (auto simp: area_tiles_def)
    have "i \<noteq> w ta - 1"
    proof
      assume "i = w ta - 1"
      with f t have "func (tile ta + D (w ta - 1) j)" by simp
      with none j show False by auto
    qed
    with i have "i < w ta - 1" by simp
    with t j show "t \<in> area_tiles D (ta\<lparr>w := w ta - 1\<rparr>)" by (auto simp: area_tiles_def)
  qed
  show "area_tiles D (ta\<lparr>w := w ta - 1\<rparr>) \<subseteq> area_tiles D ta"
  proof
    fix t assume "t \<in> area_tiles D (ta\<lparr>w := w ta - 1\<rparr>)"
    then obtain i j where t: "t = tile ta + D i j" and i: "i < w ta - 1" and j: "j < h ta"
      by (auto simp: area_tiles_def)
    from i have "i < w ta" by simp
    with t j show "t \<in> area_tiles D ta" unfolding area_tiles_def by blast
  qed
qed

lemma lower_side:
  assumes none: "\<not> (\<exists>i \<in> {0..<w ta}. func (tile ta + D i (h ta - 1)))"
  shows "\<forall>t \<in> area_tiles D ta. func t \<longrightarrow> t \<in> area_tiles D (ta\<lparr>h := h ta - 1\<rparr>)"
    and "area_tiles D (ta\<lparr>h := h ta - 1\<rparr>) \<subseteq> area_tiles D ta"
proof -
  show "\<forall>t \<in> area_tiles D ta. func t \<longrightarrow> t \<in> area_tiles D (ta\<lparr>h := h ta - 1\<rparr>)"
  proof (intro ballI impI)
    fix t assume "t \<in> area_tiles D ta" and f: "func t"
    then obtain i j where t: "t = tile ta + D i j" and i: "i < w ta" and j: "j < h ta"
      by (auto simp: area_tiles_def)
    have "j \<noteq> h ta - 1"
    proof
      assume "j = h ta - 1"
      with f t have "func (tile ta + D i (h ta - 1))" by simp
      with none i show False by auto
    qed
    with j have "j < h ta - 1" by simp
    with t i show "t \<in> area_tiles D (ta\<lparr>h := h ta - 1\<rparr>)" by (auto simp: area_tiles_def)
  qed
  show "area_tiles D (ta\<lparr>h := h ta - 1\<rparr>) \<subseteq> area_tiles D ta"
  proof
    fix t assume "t \<in> area_tiles D (ta\<lparr>h := h ta - 1\<rparr>)"
    then obtain i j where t: "t = tile ta + D i j" and i: "i < w ta" and j: "j < h ta - 1"
      by (auto simp: area_tiles_def)
    from j have "j < h ta" by simp
    with t i show "t \<in> area_tiles D ta" unfolding area_tiles_def by blast
  qed
qed

lemma MakeStationAreaSmaller_shrunk_ok:
  "TileDiffXY_linear D \<Longrightarrow> shrunk_ok D func ta (MakeStationAreaSmaller D func ta)"
proof (induction D func ta rule: MakeStationAreaSmaller.induct)
  case (1 D func ta)
  note lin = "1.prems"
  let ?left = "\<exists>i \<in> {0..<h ta}. func (tile ta + D 0 i)"
  let ?right = "\<exists>i \<in> {0..<h ta}. func (tile ta + D (w ta - 1) i)"
  let ?upper = "\<exists>i \<in> {0..<w ta}. func (tile ta + D i 0)"
  let ?lower = "\<exists>i \<in> {0..<w ta}. func (tile ta + D i (h ta - 1))"
  show ?case
  proof (cases "w ta \<noteq> 0 \<and> h ta \<noteq> 0")
    case False
    then have c: "(w ta \<noteq> 0 \<and> h ta \<noteq> 0) = False" by simp
    have e: "MakeStationAreaSmaller D func ta = TileArea_Clear ta"
      by (subst MakeStationAreaSmaller.simps) (simp only: c if_False)
    from False have a: "area_tiles D ta = {}" by (auto simp: area_tiles_def)
    have b: "area_tiles D (TileArea_Clear ta) = {}"
      by (simp add: area_tiles_def TileArea_Clear_def)
    show ?thesis
      unfolding e shrunk_ok_def a b by (simp add: TileArea_Clear_def)
  next
    case ne: True
    show ?thesis
    proof (cases ?left)
      case False
      with ne have e: "MakeStationAreaSmaller D func ta =
          MakeStationAreaSmaller D func (ta\<lparr>tile := tile ta + D 1 0, w := w ta - 1\<rparr>)"
        by (subst MakeStationAreaSmaller.simps) simp
      from "1.IH"(1) [OF ne False lin] left_side [where func = func and ta = ta and D = D, OF lin False]
      show ?thesis unfolding e by (rule shrunk_ok_step)
    next
      case l: True
      show ?thesis
      proof (cases ?right)
        case False
        with ne l have e: "MakeStationAreaSmaller D func ta =
            MakeStationAreaSmaller D func (ta\<lparr>w := w ta - 1\<rparr>)"
          by (subst MakeStationAreaSmaller.simps) simp
        from "1.IH"(2) [OF ne _ False lin] l right_side [where func = func and ta = ta and D = D, OF False]
        show ?thesis unfolding e by (auto intro: shrunk_ok_step)
      next
        case r: True
        show ?thesis
        proof (cases ?upper)
          case False
          with ne l r have e: "MakeStationAreaSmaller D func ta =
              MakeStationAreaSmaller D func (ta\<lparr>tile := tile ta + D 0 1, h := h ta - 1\<rparr>)"
            by (subst MakeStationAreaSmaller.simps) simp
          from "1.IH"(3) [OF ne _ _ False lin] l r upper_side [where func = func and ta = ta and D = D, OF lin False]
          show ?thesis unfolding e by (auto intro: shrunk_ok_step)
        next
          case u: True
          show ?thesis
          proof (cases ?lower)
            case False
            with ne l r u have e: "MakeStationAreaSmaller D func ta =
                MakeStationAreaSmaller D func (ta\<lparr>h := h ta - 1\<rparr>)"
              by (subst MakeStationAreaSmaller.simps) simp
            from "1.IH"(4) [OF ne _ _ _ False lin] l r u lower_side [where func = func and ta = ta and D = D, OF False]
            show ?thesis unfolding e by (auto intro: shrunk_ok_step)
          next
            case lo: True
            with ne l r u have e: "MakeStationAreaSmaller D func ta = ta"
              by (subst MakeStationAreaSmaller.simps) simp
            from ne l r u lo show ?thesis
              unfolding e shrunk_ok_def by (auto simp: Bex_def)
          qed
        qed
      qed
    qed
  qed
qed


text \<open>
  Claim C8. \<^verbatim>\<open>MakeStationAreaSmaller\<close> returns an area inside the given one that still
  holds every tile of the given area that belongs to the station. Unless the result is
  the cleared area, each of its four sides holds a tile of the station: the area is found
  by looking along the sides, not from the coordinates of a removed tile.
\<close>

theorem station_area_made_smaller:
  assumes "TileDiffXY_linear D"
  shows "let r = MakeStationAreaSmaller D func ta in
     (\<forall>t \<in> area_tiles D ta. func t \<longrightarrow> t \<in> area_tiles D r) \<and>
     area_tiles D r \<subseteq> area_tiles D ta \<and>
     (w r \<noteq> 0 \<longrightarrow> h r \<noteq> 0 \<and>
        (\<exists>j < h r. func (tile r + D 0 j)) \<and> (\<exists>j < h r. func (tile r + D (w r - 1) j)) \<and>
        (\<exists>i < w r. func (tile r + D i 0)) \<and> (\<exists>i < w r. func (tile r + D i (h r - 1)))) \<and>
     (w r = 0 \<longrightarrow> h r = 0 \<and> tile r = INVALID_TILE)"
  using MakeStationAreaSmaller_shrunk_ok [OF assms, of func ta]
  unfolding shrunk_ok_def Let_def .

lemma TileDiffXY_256_linear: "TileDiffXY_linear TileDiffXY_256"
  unfolding TileDiffXY_linear_def TileDiffXY_256_def by simp

theorem station_area_made_smaller_witness:
  "TileDiffXY_linear TileDiffXY_256 \<and>
   MakeStationAreaSmaller TileDiffXY_256 (\<lambda>t. t = 1) \<lparr>tile = 0, w = 2, h = 1\<rparr>
     = \<lparr>tile = 1, w = 1, h = 1\<rparr> \<and>
   (\<exists>j < h (MakeStationAreaSmaller TileDiffXY_256 (\<lambda>t. t = 1) \<lparr>tile = 0, w = 2, h = 1\<rparr>).
      tile (MakeStationAreaSmaller TileDiffXY_256 (\<lambda>t. t = 1) \<lparr>tile = 0, w = 2, h = 1\<rparr>)
        + TileDiffXY_256 0 j = 1)"
proof -
  let ?f = "\<lambda>t :: nat. t = 1"
  have s1: "MakeStationAreaSmaller TileDiffXY_256 ?f \<lparr>tile = 0, w = 2, h = 1\<rparr>
     = MakeStationAreaSmaller TileDiffXY_256 ?f \<lparr>tile = 1, w = 1, h = 1\<rparr>"
    by (subst MakeStationAreaSmaller.simps) (simp add: TileDiffXY_256_def)
  have s2: "MakeStationAreaSmaller TileDiffXY_256 ?f \<lparr>tile = 1, w = 1, h = 1\<rparr>
     = \<lparr>tile = 1, w = 1, h = 1\<rparr>"
    by (subst MakeStationAreaSmaller.simps) (simp add: TileDiffXY_256_def)
  have e: "MakeStationAreaSmaller TileDiffXY_256 ?f \<lparr>tile = 0, w = 2, h = 1\<rparr>
     = \<lparr>tile = 1, w = 1, h = 1\<rparr>"
    using s1 s2 by simp
  have "w (MakeStationAreaSmaller TileDiffXY_256 ?f \<lparr>tile = 0, w = 2, h = 1\<rparr>) \<noteq> 0"
    unfolding e by simp
  with station_area_made_smaller [OF TileDiffXY_256_linear, of ?f "\<lparr>tile = 0, w = 2, h = 1\<rparr>"]
  have "\<exists>j < h (MakeStationAreaSmaller TileDiffXY_256 ?f \<lparr>tile = 0, w = 2, h = 1\<rparr>).
      tile (MakeStationAreaSmaller TileDiffXY_256 ?f \<lparr>tile = 0, w = 2, h = 1\<rparr>)
        + TileDiffXY_256 0 j = 1"
    unfolding Let_def by blast
  with e TileDiffXY_256_linear show ?thesis by blast
qed


section \<open>Properties of the industry names of stations\<close>

lemma GenerateStationName_spiral_keeps:
  "used_names sni \<subseteq> used_names (fst (GenerateStationName_spiral env m tiles sni)) \<and>
   indtypes (fst (GenerateStationName_spiral env m tiles sni)) = indtypes sni"
proof (induction tiles arbitrary: sni)
  case Nil
  then show ?case by simp
next
  case (Cons t tiles)
  let ?sni = "SetUsed (SetUsed sni STR_SV_STNAME_OILFIELD) STR_SV_STNAME_MINES"
  have u: "used_names sni \<subseteq> used_names ?sni" and i: "indtypes ?sni = indtypes sni"
    by (auto simp: SetUsed_def)
  from Cons.IH [of sni] Cons.IH [of ?sni] u i show ?case
    by (auto simp: Let_def)
qed

lemma GenerateStationName_spiral_marks:
  assumes "\<exists>t \<in> set tiles. names_station env m t"
  shows "STR_SV_STNAME_OILFIELD \<in> used_names (fst (GenerateStationName_spiral env m tiles sni)) \<and>
         STR_SV_STNAME_MINES \<in> used_names (fst (GenerateStationName_spiral env m tiles sni))"
  using assms
proof (induction tiles arbitrary: sni)
  case Nil
  then show ?case by simp
next
  case (Cons t tiles)
  let ?sni = "SetUsed (SetUsed sni STR_SV_STNAME_OILFIELD) STR_SV_STNAME_MINES"
  show ?case
  proof (cases "names_station env m t")
    case False
    with Cons.prems have "\<exists>t \<in> set tiles. names_station env m t" by auto
    from Cons.IH [OF this, of sni] False show ?thesis
      by (auto simp: names_station_def Let_def)
  next
    case True
    have "STR_SV_STNAME_OILFIELD \<in> used_names ?sni" "STR_SV_STNAME_MINES \<in> used_names ?sni"
      by (simp_all add: SetUsed_def)
    with GenerateStationName_spiral_keeps [of ?sni env m tiles] True
    show ?thesis by (auto simp: names_station_def Let_def)
  qed
qed

lemma GenerateStationName_spiral_claims:
  assumes "\<forall>x \<in> set pre. names_station env m x \<longrightarrow> GetIndustryType m x \<in> indtypes sni"
    and "names_station env m t" and "GetIndustryType m t \<notin> indtypes sni"
    and "station_name (GetIndustrySpec env (GetIndustryType m t)) \<noteq> STR_NULL"
  shows "snd (GenerateStationName_spiral env m (pre @ t # post) sni) = Some (GetIndustryType m t)"
  using assms(1,3)
proof (induction pre arbitrary: sni)
  case Nil
  with assms(2,4) show ?case by (simp add: names_station_def Let_def SetUsed_def)
next
  case (Cons x pre)
  let ?sni = "SetUsed (SetUsed sni STR_SV_STNAME_OILFIELD) STR_SV_STNAME_MINES"
  have i: "indtypes ?sni = indtypes sni" by (simp add: SetUsed_def)
  from Cons.prems have rest: "\<forall>x \<in> set pre. names_station env m x \<longrightarrow> GetIndustryType m x \<in> indtypes sni"
    by simp
  show ?case
  proof (cases "names_station env m x")
    case False
    with Cons.IH [OF rest Cons.prems(2)] show ?thesis
      by (auto simp: names_station_def Let_def)
  next
    case True
    with Cons.prems have "GetIndustryType m x \<in> indtypes ?sni" by (simp add: i)
    moreover from rest Cons.prems(2) i
    have "snd (GenerateStationName_spiral env m (pre @ t # post) ?sni) = Some (GetIndustryType m t)"
      by (intro Cons.IH) simp_all
    ultimately show ?thesis using True by (simp add: names_station_def Let_def)
  qed
qed

text \<open>
  Claim C9. If the spiral holds an industry tile whose industry type has a station name,
  the names "oilfield" and "mines" are marked used when the scan is over. The scan
  passes over the tiles that name no station and over those whose industry type is taken
  already; if the first tile after them names a station with a name other than
  \<^verbatim>\<open>STR_NULL\<close>, the station takes the industry type of that tile and the function
  returns \<^verbatim>\<open>STR_SV_STNAME_FALLBACK\<close>.
\<close>

theorem industry_station_name:
  "let sni = GenerateStationName_stations env st stations \<lparr>used_names = {}, indtypes = {}\<rparr>
   in ((\<exists>t \<in> set spiral. names_station env m t) \<longrightarrow>
         STR_SV_STNAME_OILFIELD \<in> used_names (fst (GenerateStationName_spiral env m spiral sni)) \<and>
         STR_SV_STNAME_MINES \<in> used_names (fst (GenerateStationName_spiral env m spiral sni))) \<and>
      (\<forall>pre t post.
         spiral = pre @ t # post \<and>
         (\<forall>x \<in> set pre. names_station env m x \<longrightarrow> GetIndustryType m x \<in> indtypes sni) \<and>
         names_station env m t \<and> GetIndustryType m t \<notin> indtypes sni \<and>
         station_name (GetIndustrySpec env (GetIndustryType m t)) \<noteq> STR_NULL \<longrightarrow>
         GenerateStationName_industry env m stations spiral st =
           Inl (st\<lparr>indtype := GetIndustryType m t\<rparr>, STR_SV_STNAME_FALLBACK))"
proof -
  let ?sni = "GenerateStationName_stations env st stations \<lparr>used_names = {}, indtypes = {}\<rparr>"
  have a: "(\<exists>t \<in> set spiral. names_station env m t) \<longrightarrow>
         STR_SV_STNAME_OILFIELD \<in> used_names (fst (GenerateStationName_spiral env m spiral ?sni)) \<and>
         STR_SV_STNAME_MINES \<in> used_names (fst (GenerateStationName_spiral env m spiral ?sni))"
    using GenerateStationName_spiral_marks [of spiral env m ?sni] by blast
  have b: "\<forall>pre t post.
         spiral = pre @ t # post \<and>
         (\<forall>x \<in> set pre. names_station env m x \<longrightarrow> GetIndustryType m x \<in> indtypes ?sni) \<and>
         names_station env m t \<and> GetIndustryType m t \<notin> indtypes ?sni \<and>
         station_name (GetIndustrySpec env (GetIndustryType m t)) \<noteq> STR_NULL \<longrightarrow>
         GenerateStationName_industry env m stations spiral st =
           Inl (st\<lparr>indtype := GetIndustryType m t\<rparr>, STR_SV_STNAME_FALLBACK)"
  proof (intro allI impI)
    fix pre t post
    assume h: "spiral = pre @ t # post \<and>
         (\<forall>x \<in> set pre. names_station env m x \<longrightarrow> GetIndustryType m x \<in> indtypes ?sni) \<and>
         names_station env m t \<and> GetIndustryType m t \<notin> indtypes ?sni \<and>
         station_name (GetIndustrySpec env (GetIndustryType m t)) \<noteq> STR_NULL"
    then have "snd (GenerateStationName_spiral env m (pre @ t # post) ?sni)
                 = Some (GetIndustryType m t)"
      by (intro GenerateStationName_spiral_claims) simp_all
    moreover obtain sni' r where
      p: "GenerateStationName_spiral env m (pre @ t # post) ?sni = (sni', r)"
      by (cases "GenerateStationName_spiral env m (pre @ t # post) ?sni")
    ultimately have "GenerateStationName_spiral env m (pre @ t # post) ?sni
                       = (sni', Some (GetIndustryType m t))" by simp
    with h show "GenerateStationName_industry env m stations spiral st =
           Inl (st\<lparr>indtype := GetIndustryType m t\<rparr>, STR_SV_STNAME_FALLBACK)"
      by (simp add: GenerateStationName_industry_def Let_def)
  qed
  from a b show ?thesis by (simp add: Let_def)
qed

theorem industry_station_name_witness:
  "names_station mine_env mine_map 7 \<and>
   GenerateStationName_industry mine_env mine_map [] [5, 7, 9] (strip_station 1) =
     Inl ((strip_station 1)\<lparr>indtype := 3\<rparr>, STR_SV_STNAME_FALLBACK) \<and>
   STR_SV_STNAME_OILFIELD \<in> used_names (fst (GenerateStationName_spiral mine_env mine_map [5, 7, 9]
       (GenerateStationName_stations mine_env (strip_station 1) [] \<lparr>used_names = {}, indtypes = {}\<rparr>)))"
proof -
  have n: "names_station mine_env mine_map 7"
    by (simp add: names_station_def mine_env_def mine_map_def IsTileType_def)
  then have e: "\<exists>t \<in> set [5, 7, 9 :: nat]. names_station mine_env mine_map t" by simp
  have g: "GenerateStationName_industry mine_env mine_map [] [5, 7, 9] (strip_station 1) =
     Inl ((strip_station 1)\<lparr>indtype := 3\<rparr>, STR_SV_STNAME_FALLBACK)"
    by (simp add: GenerateStationName_industry_def mine_env_def mine_map_def IsTileType_def
        SetUsed_def Let_def)
  from industry_station_name [of mine_env "strip_station 1" "[]" "[5, 7, 9]" mine_map,
      unfolded Let_def, THEN conjunct1] e
  have "STR_SV_STNAME_OILFIELD \<in> used_names (fst (GenerateStationName_spiral
       mine_env mine_map [5, 7, 9]
       (GenerateStationName_stations mine_env (strip_station 1) [] \<lparr>used_names = {}, indtypes = {}\<rparr>)))"
    by (rule mp [THEN conjunct1])
  with n g show ?thesis by (intro conjI)
qed


section \<open>Properties of the removal of rail station tiles\<close>

lemma AddCost_cc_failed:
  "Failed c \<Longrightarrow> Failed (AddCost_cc c ret) \<and> message (AddCost_cc c ret) = message c"
  by (simp add: AddCost_cc_def AddCost_def Failed_def Let_def)

lemma AddCost_cc_first_failure:
  "\<not> Failed c \<Longrightarrow> Failed ret \<Longrightarrow>
   Failed (AddCost_cc c ret) \<and> message (AddCost_cc c ret) = message ret"
  by (simp add: AddCost_cc_def AddCost_def Failed_def Let_def)

lemma AddCost_cc_ok:
  "\<not> Failed c \<Longrightarrow> \<not> Failed ret \<Longrightarrow> \<not> Failed (AddCost_cc c ret)"
  by (simp add: AddCost_cc_def AddCost_def Failed_def Let_def)

lemma loop_kept_failed:
  assumes "loop_kept env tiles s1 s'" and "Failed (error s1)"
    and "quantity s1 = quantity s" and "world s1 = world s"
    and "affected_stations s1 = affected_stations s" and "total_cost s1 = total_cost s"
    and "Failed (error s) \<longrightarrow> message (error s1) = message (error s)"
    and "\<not> Failed (error s) \<longrightarrow> tile_error env (world s) cur = Some (message (error s1))"
  shows "loop_kept env (cur # tiles) s s'"
  using assms by (auto simp: loop_kept_def)

lemma loop_kept_skip:
  assumes "loop_kept env tiles s1 s'" and "Failed (error s1) = Failed (error s)"
    and "message (error s1) = message (error s) \<or> \<not> Failed (error s)"
    and "quantity s1 = quantity s" and "world s1 = world s"
    and "affected_stations s1 = affected_stations s" and "total_cost s1 = total_cost s"
    and "tile_error env (world s) cur = None"
  shows "loop_kept env (cur # tiles) s s'"
  using assms by (auto simp: loop_kept_def)

lemma RemoveFromRailBaseStation_loop_kept:
  assumes "\<forall>cur \<in> set tiles. \<not> tile_passes env (world s) cur"
  shows "loop_kept env tiles s (RemoveFromRailBaseStation_loop env execute keep_rail tiles s)"
  using assms
proof (induction tiles arbitrary: s)
  case Nil
  then show ?case by (simp add: loop_kept_def)
next
  case (Cons cur tiles)
  let ?w = "world s"
  let ?ret = "EnsureNoVehicleOnGround_in env ?w cur"
  let ?s1 = "s\<lparr>error := AddCost_cc (error s) ?ret\<rparr>"
  from Cons.prems have np: "\<not> tile_passes env ?w cur"
    and rest: "\<forall>c \<in> set tiles. \<not> tile_passes env ?w c" by simp_all
  show ?case
  proof (cases "HasStationTileRail env ?w cur")
    case False
    then have te: "tile_error env ?w cur = None" by (simp add: tile_error_def)
    from False have step: "RemoveFromRailBaseStation_loop env execute keep_rail (cur # tiles) s =
        RemoveFromRailBaseStation_loop env execute keep_rail tiles s" by simp
    from Cons.IH [OF rest] te show ?thesis
      unfolding step by (intro loop_kept_skip [where ?s1.0 = s]) simp_all
  next
    case rail: True
    have w1: "world ?s1 = ?w" by simp
    from rest have rest1: "\<forall>c \<in> set tiles. \<not> tile_passes env (world ?s1) c" by simp
    show ?thesis
    proof (cases "Failed (error ?s1)")
      case True
      with rail have step: "RemoveFromRailBaseStation_loop env execute keep_rail (cur # tiles) s =
          RemoveFromRailBaseStation_loop env execute keep_rail tiles ?s1"
        by (simp add: Let_def)
      have m1: "Failed (error s) \<longrightarrow> message (error ?s1) = message (error s)"
        using AddCost_cc_failed [of "error s" ?ret] by simp
      have m2: "\<not> Failed (error s) \<longrightarrow> tile_error env ?w cur = Some (message (error ?s1))"
      proof
        assume nf: "\<not> Failed (error s)"
        have fr: "Failed ?ret"
        proof (rule ccontr)
          assume "\<not> Failed ?ret"
          from AddCost_cc_ok [OF nf this] True show False by simp
        qed
        from AddCost_cc_first_failure [OF nf fr] rail fr
        show "tile_error env ?w cur = Some (message (error ?s1))"
          by (simp add: tile_error_def)
      qed
      from Cons.IH [OF rest1] True m1 m2 show ?thesis
        unfolding step by (intro loop_kept_failed [where ?s1.0 = ?s1]) simp_all
    next
      case ok1: False
      then have nf: "\<not> Failed (error s)" and nr: "\<not> Failed ?ret"
        using AddCost_cc_failed [of "error s" ?ret]
          AddCost_cc_first_failure [of "error s" ?ret] by auto
      show ?thesis
      proof (cases "GetByTile env ?w cur")
        case None
        with rail ok1 have step:
          "RemoveFromRailBaseStation_loop env execute keep_rail (cur # tiles) s =
           RemoveFromRailBaseStation_loop env execute keep_rail tiles ?s1"
          by (simp add: Let_def)
        from rail nr None have te: "tile_error env ?w cur = None" by (simp add: tile_error_def)
        from Cons.IH [OF rest1] ok1 nf te show ?thesis
          unfolding step by (intro loop_kept_skip [where ?s1.0 = ?s1]) simp_all
      next
        case (Some st)
        let ?own = "CheckOwnership env ?w st"
        let ?s2 = "?s1\<lparr>error := AddCost_cc (error ?s1) ?own\<rparr>"
        from np rail nr Some have nw: "\<not> current_company_is_OWNER_WATER env"
          and fo: "Failed ?own" by (simp_all add: tile_passes_def)
        from AddCost_cc_first_failure [OF ok1 fo]
        have f2: "Failed (error ?s2)" and m2: "message (error ?s2) = message ?own" by simp_all
        from rail ok1 Some nw f2 have step:
          "RemoveFromRailBaseStation_loop env execute keep_rail (cur # tiles) s =
           RemoveFromRailBaseStation_loop env execute keep_rail tiles ?s2"
          by (simp add: Let_def)
        from rest have rest2: "\<forall>c \<in> set tiles. \<not> tile_passes env (world ?s2) c" by simp
        from rail nr Some nw fo have te: "tile_error env ?w cur = Some (message ?own)"
          by (simp add: tile_error_def)
        from Cons.IH [OF rest2] f2 m2 nf te show ?thesis
          unfolding step by (intro loop_kept_failed [where ?s1.0 = ?s2]) simp_all
      qed
    qed
  qed
qed

text \<open>
  Claim C10. If no tile of the area passes the checks of the loop, the command fails:
  with the first error that the checks of the tiles gave, or with "there is no station"
  when they gave none. The state of the world and the list of affected stations are as
  before.
\<close>

theorem remove_without_station_tile_fails:
  assumes "\<forall>cur \<in> set ta. \<not> tile_passes env wld cur"
  shows "let (ret, wld', affected') =
             RemoveFromRailBaseStation env ta affected execute removal_cost keep_rail wld
         in Failed ret \<and>
            message ret = (case first_tile_error env wld ta of
                             Some msg \<Rightarrow> msg
                           | None \<Rightarrow> STR_ERROR_THERE_IS_NO_STATION) \<and>
            wld' = wld \<and> affected' = affected"
proof -
  let ?init = "\<lparr>quantity = 0, total_cost = CommandCost_ok, error = CommandCost_ok,
              world = wld, affected_stations = affected\<rparr>"
  let ?fin = "RemoveFromRailBaseStation_loop env execute keep_rail ta ?init"
  from assms have "\<forall>cur \<in> set ta. \<not> tile_passes env (world ?init) cur" by simp
  from RemoveFromRailBaseStation_loop_kept [OF this, of execute keep_rail]
  have k: "loop_kept env ta ?init ?fin" .
  have nf: "\<not> Failed (error ?init)" by (simp add: Failed_def CommandCost_ok_def)
  from k have q: "quantity ?fin = 0" and w: "world ?fin = wld"
    and a: "affected_stations ?fin = affected" by (simp_all add: loop_kept_def)
  have r: "RemoveFromRailBaseStation env ta affected execute removal_cost keep_rail wld =
      (if Failed (error ?fin) then error ?fin else CommandCost_error STR_ERROR_THERE_IS_NO_STATION,
       wld, affected)"
    using q w a by (simp add: RemoveFromRailBaseStation_def Let_def)
  show ?thesis
  proof (cases "first_tile_error env wld ta")
    case None
    with k nf have "\<not> Failed (error ?fin)" by (simp add: loop_kept_def)
    with None show ?thesis
      unfolding r by (simp add: Failed_def CommandCost_error_def)
  next
    case (Some msg)
    with k nf have "Failed (error ?fin)" and "message (error ?fin) = msg"
      by (simp_all add: loop_kept_def)
    with Some show ?thesis unfolding r by simp
  qed
qed

theorem remove_without_station_tile_fails_witness:
  "\<not> tile_passes foreign_env {3, 4} 3 \<and> \<not> tile_passes foreign_env {3, 4} 4 \<and>
   \<not> tile_passes foreign_env {3, 4} 5 \<and>
   Failed (fst (RemoveFromRailBaseStation foreign_env [3, 4, 5] [] True 50 False {3, 4})) \<and>
   message (fst (RemoveFromRailBaseStation foreign_env [3, 4, 5] [] True 50 False {3, 4}))
     = STR_OTHER 7 \<and>
   fst (snd (RemoveFromRailBaseStation foreign_env [3, 4, 5] [] True 50 False {3, 4})) = {3, 4}"
proof -
  have p: "\<not> tile_passes foreign_env {3, 4} 3" "\<not> tile_passes foreign_env {3, 4} 4"
    "\<not> tile_passes foreign_env {3, 4} 5"
    by (simp_all add: tile_passes_def foreign_env_def Failed_def CommandCost_error_def)
  then have h: "\<forall>cur \<in> set [3, 4, 5]. \<not> tile_passes foreign_env {3, 4} cur" by simp
  have e: "first_tile_error foreign_env {3, 4} [3, 4, 5] = Some (STR_OTHER 7)"
    by (simp add: tile_error_def foreign_env_def Failed_def CommandCost_error_def
        CommandCost_ok_def)
  from remove_without_station_tile_fails [OF h, of "[]" True 50 False]
  have "Failed (fst (RemoveFromRailBaseStation foreign_env [3, 4, 5] [] True 50 False {3, 4})) \<and>
   message (fst (RemoveFromRailBaseStation foreign_env [3, 4, 5] [] True 50 False {3, 4}))
     = STR_OTHER 7 \<and>
   fst (snd (RemoveFromRailBaseStation foreign_env [3, 4, 5] [] True 50 False {3, 4})) = {3, 4}"
    unfolding e Let_def by (simp add: case_prod_beta)
  with p show ?thesis by (intro conjI) simp_all
qed

end
